theory Spec2Isabelle
  imports Complex_Main "HOL-Library.Log_Nat" "HOL-Library.Multiset"
begin

section \<open>Python values used by the payroll calculator\<close>

subsection \<open>Exceptions\<close>

text \<open>
  The exceptions that the calculator and the standard-library calls it makes can raise.
  \<open>IllegalMonthError\<close> is raised by \<^verbatim>\<open>calendar.monthrange\<close>, \<open>ValueError\<close> by the
  \<^verbatim>\<open>datetime.date\<close> constructor, \<open>ZeroDivisionError\<close> by \<^verbatim>\<open>/\<close>, and \<open>OverflowError\<close> by
  the conversion of an \<^verbatim>\<open>int\<close> that is too large to a \<^verbatim>\<open>float\<close> or, in the
  \<^verbatim>\<open>datetime.date\<close> constructor, to a C \<^verbatim>\<open>int\<close>.
\<close>

datatype py_error = IllegalMonthError | ValueError | ZeroDivisionError | OverflowError

subsection \<open>Binary64 floating point\<close>

text \<open>
  A Python \<^verbatim>\<open>float\<close> is an IEEE 754 binary64 number. A finite float is represented by
  the rational number it denotes; the two zeros \<^verbatim>\<open>0.0\<close> and \<^verbatim>\<open>-0.0\<close>, which Python's
  \<^verbatim>\<open>==\<close> identifies, are both \<open>Finite 0\<close>. Every arithmetic operation computes the exact
  rational result and rounds it to the nearest binary64 number, ties to even
  (\<open>round_to_double\<close>), overflowing to an infinity.
\<close>

datatype pyfloat = Finite rat | PosInf | NegInf | NaN

definition round_half_even :: "rat \<Rightarrow> int" where
  "round_half_even x =
     (let f = \<lfloor>x\<rfloor>; r = x - of_int f
      in if r < 1 / 2 then f else if 1 / 2 < r then f + 1 else if even f then f else f + 1)"

text \<open>\<open>floor_log2 x\<close> is \<open>\<lfloor>log\<^sub>2 x\<rfloor>\<close> for a positive rational \<open>x\<close>, computed on integers.\<close>

definition floor_log2 :: "rat \<Rightarrow> int" where
  "floor_log2 x =
     (if 1 \<le> x then bitlen \<lfloor>x\<rfloor> - 1
      else let b = bitlen \<lfloor>1 / x\<rfloor> in if x * 2 ^ nat (b - 1) = 1 then 1 - b else - b)"

text \<open>
  Rounding to 53 significant bits; below \<open>2\<^sup>-\<^sup>1\<^sup>0\<^sup>2\<^sup>2\<close> the spacing stays \<open>2\<^sup>-\<^sup>1\<^sup>0\<^sup>7\<^sup>4\<close>
  (subnormal numbers).
\<close>

definition round_to_double :: "rat \<Rightarrow> rat" where
  "round_to_double x =
     (if x = 0 then 0
      else let e = max (floor_log2 \<bar>x\<bar>) (- 1022); q = 2 powi (e - 52)
           in of_int (round_half_even (x / q)) * q)"

definition fl :: "rat \<Rightarrow> pyfloat" where
  "fl x =
     (let r = round_to_double x
      in if 2 ^ 1024 \<le> r then PosInf else if r \<le> - (2 ^ 1024) then NegInf else Finite r)"

text \<open>The spacing of the binary64 numbers around \<open>x\<close>, the unit in which \<open>x\<close> is rounded.\<close>

definition quantum :: "rat \<Rightarrow> rat" where
  "quantum x = 2 powi (max (floor_log2 \<bar>x\<bar>) (- 1022) - 52)"

text \<open>
  Among the values \<open>Finite q\<close> the floats are those whose rational \<open>q\<close> is a binary64
  number, one that rounding leaves as it is. The salary columns are \<^verbatim>\<open>Float\<close> columns, so
  the terms of an employee are floats.
\<close>

definition is_float :: "pyfloat \<Rightarrow> bool" where
  "is_float x = (case x of Finite q \<Rightarrow> fl q = Finite q | _ \<Rightarrow> True)"

text \<open>A decimal literal of the source text, such as \<^verbatim>\<open>0.12\<close>, denotes the float nearest to it.\<close>

definition float_literal :: "rat \<Rightarrow> pyfloat" where
  "float_literal q = fl q"

fun py_neg :: "pyfloat \<Rightarrow> pyfloat" where
  "py_neg (Finite a) = Finite (- a)"
| "py_neg PosInf = NegInf"
| "py_neg NegInf = PosInf"
| "py_neg NaN = NaN"

fun py_add :: "pyfloat \<Rightarrow> pyfloat \<Rightarrow> pyfloat" where
  "py_add (Finite a) (Finite b) = fl (a + b)"
| "py_add NaN y = NaN"
| "py_add x NaN = NaN"
| "py_add PosInf NegInf = NaN"
| "py_add NegInf PosInf = NaN"
| "py_add PosInf y = PosInf"
| "py_add NegInf y = NegInf"
| "py_add x PosInf = PosInf"
| "py_add x NegInf = NegInf"

definition py_sub :: "pyfloat \<Rightarrow> pyfloat \<Rightarrow> pyfloat" where
  "py_sub x y = py_add x (py_neg y)"

text \<open>The sign of a float that is not a NaN: \<open>-1\<close>, \<open>0\<close> or \<open>1\<close>.\<close>

fun py_sign :: "pyfloat \<Rightarrow> int" where
  "py_sign (Finite a) = (if a = 0 then 0 else if 0 < a then 1 else - 1)"
| "py_sign PosInf = 1"
| "py_sign NegInf = - 1"
| "py_sign NaN = 0"

definition signed_inf :: "int \<Rightarrow> pyfloat" where
  "signed_inf s = (if s = 0 then NaN else if 0 < s then PosInf else NegInf)"

fun py_mul :: "pyfloat \<Rightarrow> pyfloat \<Rightarrow> pyfloat" where
  "py_mul (Finite a) (Finite b) = fl (a * b)"
| "py_mul NaN y = NaN"
| "py_mul x NaN = NaN"
| "py_mul x y = signed_inf (py_sign x * py_sign y)"

text \<open>
  \<^verbatim>\<open>x / y\<close> on floats. Python raises \<^verbatim>\<open>ZeroDivisionError\<close> when the divisor is zero,
  whatever the dividend.
\<close>

fun py_truediv :: "pyfloat \<Rightarrow> pyfloat \<Rightarrow> py_error + pyfloat" where
  "py_truediv x (Finite b) =
     (if b = 0 then Inl ZeroDivisionError
      else case x of
        Finite a \<Rightarrow> Inr (fl (a / b))
      | NaN \<Rightarrow> Inr NaN
      | _ \<Rightarrow> Inr (signed_inf (py_sign x * py_sign (Finite b))))"
| "py_truediv x NaN = Inr NaN"
| "py_truediv (Finite a) y = Inr (Finite 0)"
| "py_truediv x y = Inr NaN"

text \<open>The conversion \<^verbatim>\<open>float(n)\<close> of an \<^verbatim>\<open>int\<close>, also applied by \<^verbatim>\<open>/\<close> to an int operand.\<close>

definition float_of_int :: "int \<Rightarrow> py_error + pyfloat" where
  "float_of_int n = (case fl (of_int n) of Finite d \<Rightarrow> Inr (Finite d) | _ \<Rightarrow> Inl OverflowError)"

definition py_truediv_int :: "pyfloat \<Rightarrow> int \<Rightarrow> py_error + pyfloat" where
  "py_truediv_int x n =
     (case float_of_int n of Inl e \<Rightarrow> Inl e | Inr d \<Rightarrow> py_truediv x d)"

text \<open>
  \<^verbatim>\<open>round(x, ndigits)\<close> on a float: the exact value of \<open>x\<close> is rounded to \<open>ndigits\<close>
  decimals, ties to even, and the decimal result is converted to the nearest float.
  An infinity or a NaN is returned as it is.
\<close>

fun py_round :: "pyfloat \<Rightarrow> nat \<Rightarrow> pyfloat" where
  "py_round (Finite a) ndigits = fl (of_int (round_half_even (a * 10 ^ ndigits)) / 10 ^ ndigits)"
| "py_round x ndigits = x"

text \<open>Comparisons; every comparison with a NaN is false.\<close>

fun py_le :: "pyfloat \<Rightarrow> pyfloat \<Rightarrow> bool" where
  "py_le (Finite a) (Finite b) = (a \<le> b)"
| "py_le NaN y = False"
| "py_le x NaN = False"
| "py_le NegInf y = True"
| "py_le x PosInf = True"
| "py_le x y = False"

fun py_lt :: "pyfloat \<Rightarrow> pyfloat \<Rightarrow> bool" where
  "py_lt (Finite a) (Finite b) = (a < b)"
| "py_lt NaN y = False"
| "py_lt x NaN = False"
| "py_lt PosInf y = False"
| "py_lt x NegInf = False"
| "py_lt x y = True"

definition py_gt :: "pyfloat \<Rightarrow> pyfloat \<Rightarrow> bool" where
  "py_gt x y = py_lt y x"

fun py_eq :: "pyfloat \<Rightarrow> pyfloat \<Rightarrow> bool" where
  "py_eq NaN y = False"
| "py_eq x NaN = False"
| "py_eq x y = (x = y)"

section \<open>Professional tax and validation\<close>

definition calculate_professional_tax :: "pyfloat \<Rightarrow> pyfloat" where
  "calculate_professional_tax salary =
     (if py_le salary (Finite 10000) then Finite 0
      else if py_le salary (Finite 30000) then Finite 150
      else Finite 200)"

definition validate_payroll_data :: "pyfloat \<Rightarrow> pyfloat \<Rightarrow> bool \<times> string" where
  "validate_payroll_data basic_salary allowances =
     (if py_lt basic_salary (Finite 0) then (False, ''Basic salary cannot be negative'')
      else if py_lt allowances (Finite 0) then (False, ''Allowances cannot be negative'')
      else if py_eq basic_salary (Finite 0) then (False, ''Basic salary must be greater than zero'')
      else (True, ''''))"

section \<open>Calendar\<close>

text \<open>
  The parts of Python's \<^verbatim>\<open>datetime\<close> and \<^verbatim>\<open>calendar\<close> modules that the calculator calls:
  the \<^verbatim>\<open>date\<close> constructor with its range checks, \<^verbatim>\<open>date.weekday\<close> (Monday is 0,
  Sunday is 6) and \<^verbatim>\<open>calendar.monthrange\<close>. Python's \<^verbatim>\<open>//\<close> and \<^verbatim>\<open>%\<close> on integers
  round towards minus infinity, as \<open>div\<close> and \<open>mod\<close> on \<open>int\<close> do.
\<close>

datatype date = Date (d_year: int) (d_month: int) (d_day: int)

definition is_leap :: "int \<Rightarrow> bool" where
  "is_leap year = (year mod 4 = 0 \<and> (year mod 100 \<noteq> 0 \<or> year mod 400 = 0))"

definition mdays :: "int list" where
  "mdays = [0, 31, 28, 31, 30, 31, 30, 31, 31, 30, 31, 30, 31]"

definition DAYS_BEFORE_MONTH :: "int list" where
  "DAYS_BEFORE_MONTH = [- 1, 0, 31, 59, 90, 120, 151, 181, 212, 243, 273, 304, 334]"

definition days_in_month :: "int \<Rightarrow> int \<Rightarrow> int" where
  "days_in_month year month = (if month = 2 \<and> is_leap year then 29 else mdays ! nat month)"

definition days_before_year :: "int \<Rightarrow> int" where
  "days_before_year year = (let y = year - 1 in y * 365 + y div 4 - y div 100 + y div 400)"

definition days_before_month :: "int \<Rightarrow> int \<Rightarrow> int" where
  "days_before_month year month =
     DAYS_BEFORE_MONTH ! nat month + (if 2 < month \<and> is_leap year then 1 else 0)"

definition ymd2ord :: "int \<Rightarrow> int \<Rightarrow> int \<Rightarrow> int" where
  "ymd2ord year month day = days_before_year year + days_before_month year month + day"

text \<open>
  \<^verbatim>\<open>date(year, month, day)\<close>: the constructor converts its arguments to C \<^verbatim>\<open>int\<close>s of 32
  bits, which raises \<^verbatim>\<open>OverflowError\<close> for an argument that does not fit, and raises
  \<^verbatim>\<open>ValueError\<close> outside the calendar.
\<close>

definition c_int :: "int \<Rightarrow> bool" where
  "c_int v = (- 2147483648 \<le> v \<and> v \<le> 2147483647)"

definition date :: "int \<Rightarrow> int \<Rightarrow> int \<Rightarrow> py_error + date" where
  "date year month day =
     (if \<not> (c_int year \<and> c_int month \<and> c_int day) then Inl OverflowError
      else if \<not> (1 \<le> year \<and> year \<le> 9999) then Inl ValueError
      else if \<not> (1 \<le> month \<and> month \<le> 12) then Inl ValueError
      else if \<not> (1 \<le> day \<and> day \<le> days_in_month year month) then Inl ValueError
      else Inr (Date year month day))"

definition toordinal :: "date \<Rightarrow> int" where
  "toordinal d = ymd2ord (d_year d) (d_month d) (d_day d)"

definition weekday :: "date \<Rightarrow> int" where
  "weekday d = (toordinal d + 6) mod 7"

text \<open>Dates are ordered by year, then month, then day.\<close>

definition date_le :: "date \<Rightarrow> date \<Rightarrow> bool" where
  "date_le a b =
     (d_year a < d_year b \<or>
      (d_year a = d_year b \<and>
       (d_month a < d_month b \<or> (d_month a = d_month b \<and> d_day a \<le> d_day b))))"

text \<open>\<^verbatim>\<open>calendar.weekday\<close> maps a year outside 1..9999 to one with the same calendar.\<close>

definition calendar_weekday :: "int \<Rightarrow> int \<Rightarrow> int \<Rightarrow> py_error + int" where
  "calendar_weekday year month day =
     (let year' = (if \<not> (1 \<le> year \<and> year \<le> 9999) then 2000 + year mod 400 else year)
      in case date year' month day of Inl e \<Rightarrow> Inl e | Inr d \<Rightarrow> Inr (weekday d))"

definition monthrange :: "int \<Rightarrow> int \<Rightarrow> py_error + int \<times> int" where
  "monthrange year month =
     (if \<not> (1 \<le> month \<and> month \<le> 12) then Inl IllegalMonthError
      else case calendar_weekday year month 1 of
        Inl e \<Rightarrow> Inl e
      | Inr day1 \<Rightarrow>
          Inr (day1, mdays ! nat month + (if month = 2 \<and> is_leap year then 1 else 0)))"

section \<open>Working days\<close>

text \<open>
  The loop of \<^verbatim>\<open>get_working_days\<close> over \<^verbatim>\<open>range(1, total_days + 1)\<close>, with the counter
  \<^verbatim>\<open>working_days\<close> as accumulator.
\<close>

fun count_working_days :: "int \<Rightarrow> int \<Rightarrow> int list \<Rightarrow> int \<Rightarrow> py_error + int" where
  "count_working_days year month [] working_days = Inr working_days"
| "count_working_days year month (day # days) working_days =
     (case date year month day of
        Inl e \<Rightarrow> Inl e
      | Inr current_date \<Rightarrow>
          count_working_days year month days
            (if weekday current_date < 5 then working_days + 1 else working_days))"

definition get_working_days :: "int \<Rightarrow> int \<Rightarrow> py_error + int" where
  "get_working_days year month =
     (case monthrange year month of
        Inl e \<Rightarrow> Inl e
      | Inr (day1, total_days) \<Rightarrow> count_working_days year month [1..total_days] 0)"

text \<open>
  The calendar as the specification words it: the Gregorian leap-year rule and month
  lengths, and the days Monday to Friday. The day of the week is found by counting the
  days of the calendar one by one, year by year and month by month, without the ordinal
  formula and the tables of the library: day 1 of the count is 1 January of year 1,
  which is a Monday, and the days of the week are numbered from Monday, 0, to Sunday, 6.
\<close>

definition gregorian_leap_year :: "int \<Rightarrow> bool" where
  "gregorian_leap_year y = (4 dvd y \<and> (\<not> 100 dvd y \<or> 400 dvd y))"

definition gregorian_month_length :: "int \<Rightarrow> int \<Rightarrow> int" where
  "gregorian_month_length y m =
     (if m = 2 then (if gregorian_leap_year y then 29 else 28)
      else if m = 4 \<or> m = 6 \<or> m = 9 \<or> m = 11 then 30
      else 31)"

definition gregorian_year_length :: "int \<Rightarrow> int" where
  "gregorian_year_length y = (if gregorian_leap_year y then 366 else 365)"

definition gregorian_day_number :: "int \<Rightarrow> int \<Rightarrow> int \<Rightarrow> int" where
  "gregorian_day_number y m d =
     sum_list (map gregorian_year_length [1..y - 1]) +
     sum_list (map (gregorian_month_length y) [1..m - 1]) + d"

definition gregorian_day_of_week :: "int \<Rightarrow> int \<Rightarrow> int \<Rightarrow> int" where
  "gregorian_day_of_week y m d = (gregorian_day_number y m d - 1) mod 7"

definition monday_to_friday :: "date \<Rightarrow> bool" where
  "monday_to_friday d = (gregorian_day_of_week (d_year d) (d_month d) (d_day d) < 5)"

section \<open>Attendance\<close>

text \<open>
  The rows of the \<^verbatim>\<open>attendance\<close> table, with the columns the calculator reads, and the
  employee object with the attributes it reads. The database session holds the table;
  its rows come in the order in which a query returns them.
\<close>

datatype AttendanceStatus = PRESENT | ABSENT | HALF_DAY

record attendance =
  att_employee_id :: int
  att_date :: date
  att_status :: AttendanceStatus

record employee =
  emp_id :: int
  emp_basic_salary :: pyfloat
  emp_allowances :: pyfloat

record session =
  attendance_table :: "attendance list"

text \<open>
  The table declares \<^verbatim>\<open>UniqueConstraint('employee_id', 'date')\<close>: no two rows of one
  employee carry the same date.
\<close>

definition unique_employee_date_attendance :: "session \<Rightarrow> bool" where
  "unique_employee_date_attendance db =
     distinct (map (\<lambda>row. (att_employee_id row, att_date row)) (attendance_table db))"

text \<open>
  \<^verbatim>\<open>db.query(Attendance).filter(...).all()\<close>: the rows of the employee whose date lies
  between the two bounds. The session is returned next to the rows, as it is after the
  query.
\<close>

definition query_attendance ::
  "int \<Rightarrow> date \<Rightarrow> date \<Rightarrow> session \<Rightarrow> attendance list \<times> session" where
  "query_attendance employee_id start_date end_date db =
     (filter (\<lambda>row. att_employee_id row = employee_id \<and>
                     date_le start_date (att_date row) \<and> date_le (att_date row) end_date)
        (attendance_table db),
      db)"

text \<open>The loop over the rows, with \<^verbatim>\<open>total_attended\<close> as accumulator.\<close>

fun sum_attended :: "attendance list \<Rightarrow> pyfloat \<Rightarrow> pyfloat" where
  "sum_attended [] total_attended = total_attended"
| "sum_attended (row # rows) total_attended =
     sum_attended rows
       (if att_status row = PRESENT then py_add total_attended (Finite 1)
        else if att_status row = HALF_DAY then py_add total_attended (Finite (1 / 2))
        else total_attended)"

definition get_attended_days ::
  "int \<Rightarrow> int \<Rightarrow> int \<Rightarrow> session \<Rightarrow> (py_error + pyfloat) \<times> session" where
  "get_attended_days employee_id year month db =
     (case date year month 1 of
        Inl e \<Rightarrow> (Inl e, db)
      | Inr start_date \<Rightarrow>
          (case monthrange year month of
             Inl e \<Rightarrow> (Inl e, db)
           | Inr (day1, last_day) \<Rightarrow>
               (case date year month last_day of
                  Inl e \<Rightarrow> (Inl e, db)
                | Inr end_date \<Rightarrow>
                    (case query_attendance employee_id start_date end_date db of
                       (attendance_records, db') \<Rightarrow>
                         (Inr (sum_attended attendance_records (Finite 0)), db')))))"

section \<open>Payroll\<close>

definition apply_attendance_adjustment :: "pyfloat \<Rightarrow> int \<Rightarrow> pyfloat \<Rightarrow> py_error + pyfloat" where
  "apply_attendance_adjustment gross_salary working_days attended_days =
     (if working_days = 0 then Inr (Finite 0)
      else case py_truediv_int attended_days working_days of
        Inl e \<Rightarrow> Inl e
      | Inr attendance_ratio \<Rightarrow> Inr (py_round (py_mul gross_salary attendance_ratio) 2))"

text \<open>The dictionary that \<^verbatim>\<open>calculate_payroll\<close> returns, one field for each key.\<close>

record payroll =
  p_basic_salary :: pyfloat
  p_allowances :: pyfloat
  p_gross_salary :: pyfloat
  p_pf_contribution :: pyfloat
  p_professional_tax :: pyfloat
  p_net_salary :: pyfloat
  p_working_days :: int
  p_attended_days :: pyfloat
  p_attendance_ratio :: pyfloat

text \<open>
  \<^verbatim>\<open>calculate_payroll\<close> receives two mutable objects, the employee and the session. Next
  to the dictionary (or the exception raised) the model returns both objects as they are
  when the function is left. In the branch \<^verbatim>\<open>else 0\<close> of the attendance ratio Python
  yields the int \<^verbatim>\<open>0\<close>, which is equal to the float \<^verbatim>\<open>0.0\<close> and is modelled by it.
\<close>

definition calculate_payroll ::
  "employee \<Rightarrow> int \<Rightarrow> int \<Rightarrow> session \<Rightarrow> (py_error + payroll) \<times> employee \<times> session" where
  "calculate_payroll employee year month db =
     (let basic_salary = emp_basic_salary employee;
          allowances = emp_allowances employee;
          gross_salary = py_add basic_salary allowances;
          pf_contribution = py_mul basic_salary (float_literal (12 / 100));
          professional_tax = calculate_professional_tax basic_salary
      in case get_working_days year month of
           Inl e \<Rightarrow> (Inl e, employee, db)
         | Inr working_days \<Rightarrow>
             (case get_attended_days (emp_id employee) year month db of
                (Inl e, db') \<Rightarrow> (Inl e, employee, db')
              | (Inr attended_days, db') \<Rightarrow>
                  (case apply_attendance_adjustment gross_salary working_days attended_days of
                     Inl e \<Rightarrow> (Inl e, employee, db')
                   | Inr adjusted_gross \<Rightarrow>
                       (case (if 0 < working_days then py_truediv_int attended_days working_days
                              else Inr (Finite 0)) of
                          Inl e \<Rightarrow> (Inl e, employee, db')
                        | Inr attendance_ratio \<Rightarrow>
                            (let adjusted_basic = py_mul basic_salary attendance_ratio;
                                 adjusted_pf = py_mul adjusted_basic (float_literal (12 / 100));
                                 final_prof_tax =
                                   (if py_gt attended_days (Finite 0) then professional_tax
                                    else Finite 0);
                                 net_salary = py_sub (py_sub adjusted_gross adjusted_pf) final_prof_tax
                             in (Inr \<lparr>p_basic_salary = py_round basic_salary 2,
                                      p_allowances = py_round allowances 2,
                                      p_gross_salary = py_round adjusted_gross 2,
                                      p_pf_contribution = py_round adjusted_pf 2,
                                      p_professional_tax = py_round final_prof_tax 2,
                                      p_net_salary = py_round net_salary 2,
                                      p_working_days = working_days,
                                      p_attended_days = attended_days,
                                      p_attendance_ratio = py_round attendance_ratio 3\<rparr>,
                                 employee, db'))))))"

text \<open>The weight of a status as the specification gives it.\<close>

fun weight :: "AttendanceStatus \<Rightarrow> rat" where
  "weight PRESENT = 1"
| "weight HALF_DAY = 1 / 2"
| "weight ABSENT = 0"

text \<open>
  A row lies in the target month when its date is one of the days \<open>1\<close> to the last day of
  that month.
\<close>

definition in_month :: "int \<Rightarrow> int \<Rightarrow> date \<Rightarrow> bool" where
  "in_month y m d =
     (d_year d = y \<and> d_month d = m \<and> 1 \<le> d_day d \<and> d_day d \<le> gregorian_month_length y m)"

definition month_events :: "int \<Rightarrow> int \<Rightarrow> int \<Rightarrow> session \<Rightarrow> attendance list" where
  "month_events employee_id y m db =
     filter (\<lambda>row. att_employee_id row = employee_id \<and> in_month y m (att_date row))
       (attendance_table db)"

text \<open>Rows for examples: one row of the given status for each of the given days.\<close>

definition example_rows ::
  "int \<Rightarrow> int \<Rightarrow> int \<Rightarrow> AttendanceStatus \<Rightarrow> int list \<Rightarrow> attendance list" where
  "example_rows employee_id y m st days =
     map (\<lambda>d. \<lparr>att_employee_id = employee_id, att_date = Date y m d, att_status = st\<rparr>) days"

section \<open>Evaluating floats on numerals\<close>

lemma bitlen_numeral_simps:
  "bitlen 1 = 1"
  "bitlen (numeral (Num.Bit0 n)) = bitlen (numeral n) + 1"
  "bitlen (numeral (Num.Bit1 n)) = bitlen (numeral n) + 1"
proof -
  show "bitlen 1 = 1" by (subst compute_bitlen) simp
  have "bitlen (numeral (Num.Bit0 n)) = bitlen (numeral (Num.Bit0 n) div 2) + 1"
    by (subst compute_bitlen) simp
  then show "bitlen (numeral (Num.Bit0 n)) = bitlen (numeral n) + 1" by simp
  have "bitlen (numeral (Num.Bit1 n)) = bitlen (numeral (Num.Bit1 n) div 2) + 1"
    by (subst compute_bitlen) simp
  then show "bitlen (numeral (Num.Bit1 n)) = bitlen (numeral n) + 1" by simp
qed

lemma floor_rat_numeral_simps:
  "\<lfloor>numeral a / numeral b :: rat\<rfloor> = numeral a div numeral b"
  "\<lfloor>- (numeral a / numeral b) :: rat\<rfloor> = - numeral a div numeral b"
  "\<lfloor>1 / numeral b :: rat\<rfloor> = 1 div numeral b"
  "\<lfloor>- (1 / numeral b) :: rat\<rfloor> = - 1 div numeral b"
proof -
  show "\<lfloor>numeral a / numeral b :: rat\<rfloor> = numeral a div numeral b"
    using floor_divide_of_int_eq [of "numeral a" "numeral b", where ?'a = rat] by simp
  show "\<lfloor>- (numeral a / numeral b) :: rat\<rfloor> = - numeral a div numeral b"
    using floor_divide_of_int_eq [of "- numeral a" "numeral b", where ?'a = rat] by simp
  show "\<lfloor>1 / numeral b :: rat\<rfloor> = 1 div numeral b"
    using floor_divide_of_int_eq [of 1 "numeral b", where ?'a = rat] by simp
  show "\<lfloor>- (1 / numeral b) :: rat\<rfloor> = - 1 div numeral b"
    using floor_divide_of_int_eq [of "- 1" "numeral b", where ?'a = rat] by simp
qed

lemmas fl_eval = fl_def float_literal_def round_to_double_def floor_log2_def round_half_even_def
  bitlen_numeral_simps floor_rat_numeral_simps Let_def

lemmas cal_defs = get_working_days_def monthrange_def calendar_weekday_def date_def c_int_def
  days_in_month_def is_leap_def mdays_def weekday_def toordinal_def ymd2ord_def
  days_before_year_def days_before_month_def DAYS_BEFORE_MONTH_def Let_def

section \<open>The professional-tax ladder\<close>

lemma py_gt_not_le: "py_gt s t \<Longrightarrow> \<not> py_le s t"
  by (cases s; cases t) (simp_all add: py_gt_def)

text \<open>
  C2. For every salary amount the stepper returns 0.0 up to 10000, 150.0 above 10000 and
  up to 30000, and 200.0 above 30000; it maps 10000 to 0.0, 10000.01 to 150.0, 30000 to
  150.0, 30000.01 to 200.0 and 45000 to 200.0.
\<close>

theorem professional_tax_ladder:
  "(py_le s (Finite 10000) \<longrightarrow> calculate_professional_tax s = Finite 0) \<and>
   (py_gt s (Finite 10000) \<and> py_le s (Finite 30000) \<longrightarrow> calculate_professional_tax s = Finite 150) \<and>
   (py_gt s (Finite 30000) \<longrightarrow> calculate_professional_tax s = Finite 200) \<and>
   calculate_professional_tax (Finite 10000) = Finite 0 \<and>
   calculate_professional_tax (float_literal (1000001 / 100)) = Finite 150 \<and>
   calculate_professional_tax (Finite 30000) = Finite 150 \<and>
   calculate_professional_tax (float_literal (3000001 / 100)) = Finite 200 \<and>
   calculate_professional_tax (Finite 45000) = Finite 200"
proof -
  have low: "py_le s (Finite 10000) \<longrightarrow> calculate_professional_tax s = Finite 0"
    by (simp add: calculate_professional_tax_def)
  have mid: "py_gt s (Finite 10000) \<and> py_le s (Finite 30000) \<longrightarrow>
      calculate_professional_tax s = Finite 150"
    by (auto simp: calculate_professional_tax_def dest: py_gt_not_le)
  have "py_gt s (Finite 30000) \<Longrightarrow> \<not> py_le s (Finite 10000)"
    by (cases s) (simp_all add: py_gt_def)
  then have high: "py_gt s (Finite 30000) \<longrightarrow> calculate_professional_tax s = Finite 200"
    by (auto simp: calculate_professional_tax_def dest: py_gt_not_le)
  have l1: "float_literal (1000001 / 100) = Finite (5497563636438139 / 549755813888)"
    by (simp add: fl_eval)
  have l2: "float_literal (3000001 / 100) = Finite (8246339957099069 / 274877906944)"
    by (simp add: fl_eval)
  have points: "calculate_professional_tax (Finite 10000) = Finite 0"
    "calculate_professional_tax (float_literal (1000001 / 100)) = Finite 150"
    "calculate_professional_tax (Finite 30000) = Finite 150"
    "calculate_professional_tax (float_literal (3000001 / 100)) = Finite 200"
    "calculate_professional_tax (Finite 45000) = Finite 200"
    by (simp_all add: calculate_professional_tax_def l1 l2)
  from low mid high points show ?thesis by blast
qed

theorem professional_tax_ladder_witness:
  "py_le (Finite 8000) (Finite 10000) \<and> calculate_professional_tax (Finite 8000) = Finite 0 \<and>
   py_gt (Finite 25000) (Finite 10000) \<and> py_le (Finite 25000) (Finite 30000) \<and>
   calculate_professional_tax (Finite 25000) = Finite 150 \<and>
   py_gt (Finite 45000) (Finite 30000) \<and> calculate_professional_tax (Finite 45000) = Finite 200"
  using professional_tax_ladder [of "Finite 8000"] professional_tax_ladder [of "Finite 25000"]
    professional_tax_ladder [of "Finite 45000"]
  by (simp add: py_gt_def)

section \<open>Counting the working days\<close>

lemma is_leap_gregorian: "is_leap year = gregorian_leap_year year"
  by (simp add: is_leap_def gregorian_leap_year_def dvd_eq_mod_eq_0)

lemma month_cases:
  fixes month :: int
  assumes "1 \<le> month" "month \<le> 12"
  shows "month = 1 \<or> month = 2 \<or> month = 3 \<or> month = 4 \<or> month = 5 \<or> month = 6 \<or>
         month = 7 \<or> month = 8 \<or> month = 9 \<or> month = 10 \<or> month = 11 \<or> month = 12"
  using assms by arith

lemma mdays_gregorian:
  assumes "1 \<le> month" "month \<le> 12"
  shows "mdays ! nat month + (if month = 2 \<and> is_leap year then 1 else 0) =
         gregorian_month_length year month"
  using month_cases [OF assms]
  by (auto simp: mdays_def gregorian_month_length_def is_leap_gregorian)

lemma days_in_month_gregorian:
  assumes "1 \<le> month" "month \<le> 12"
  shows "days_in_month year month = gregorian_month_length year month"
  using month_cases [OF assms]
  by (auto simp: days_in_month_def mdays_def gregorian_month_length_def is_leap_gregorian)

lemma gregorian_month_length_bounds:
  "28 \<le> gregorian_month_length year month" "gregorian_month_length year month \<le> 31"
  by (simp_all add: gregorian_month_length_def)

lemma date_valid:
  assumes "1 \<le> year" "year \<le> 9999" "1 \<le> month" "month \<le> 12"
    and "1 \<le> day" "day \<le> gregorian_month_length year month"
  shows "date year month day = Inr (Date year month day)"
  using assms gregorian_month_length_bounds(2) [of year month]
  by (simp add: date_def c_int_def days_in_month_gregorian)

lemma monthrange_valid:
  assumes "1 \<le> month" "month \<le> 12"
  shows "\<exists>day1. monthrange year month = Inr (day1, gregorian_month_length year month)"
proof -
  define year' where
    "year' = (if \<not> (1 \<le> year \<and> year \<le> 9999) then 2000 + year mod 400 else year)"
  have y: "1 \<le> year'" "year' \<le> 9999"
    unfolding year'_def by (auto intro: order_trans [of _ "2000 + 399"])
  have "1 \<le> gregorian_month_length year' month"
    using gregorian_month_length_bounds(1) [of year' month] by linarith
  then have d: "date year' month 1 = Inr (Date year' month 1)"
    using y assms by (simp add: date_valid)
  have cw: "calendar_weekday year month 1 = Inr (weekday (Date year' month 1))"
    unfolding calendar_weekday_def Let_def year'_def [symmetric] by (simp add: d)
  have "monthrange year month =
          Inr (weekday (Date year' month 1), gregorian_month_length year month)"
    unfolding monthrange_def using assms by (simp only: cw mdays_gregorian) simp
  then show ?thesis by blast
qed

lemma count_working_days_filter:
  assumes "1 \<le> year" "year \<le> 9999" "1 \<le> month" "month \<le> 12"
    and "\<forall>day \<in> set days. 1 \<le> day \<and> day \<le> gregorian_month_length year month"
  shows "count_working_days year month days working_days =
         Inr (working_days + int (length (filter (\<lambda>day. weekday (Date year month day) < 5) days)))"
  using assms(5)
proof (induction days arbitrary: working_days)
  case Nil
  then show ?case by simp
next
  case (Cons day days)
  then have "date year month day = Inr (Date year month day)"
    using assms(1-4) by (simp add: date_valid)
  with Cons show ?case by simp
qed

lemma weekday_range: "0 \<le> weekday d" "weekday d < 7"
  by (simp_all add: weekday_def)

text \<open>
  The ordinal of the library is the day count of the calendar: the closed formula for the
  days before a year adds one year length for each year, and the table of the days
  before a month adds one month length for each month.
\<close>

lemma div_step:
  fixes y k :: int
  assumes "0 < k"
  shows "y div k = (y - 1) div k + (if k dvd y then 1 else 0)"
proof (cases "k dvd y")
  case True
  then obtain q where q: "y = k * q" by (auto simp: dvd_def)
  have k: "k \<noteq> 0" using assms by simp
  have e: "k * q - 1 = k - 1 + k * (q - 1)" by (simp add: algebra_simps)
  have z: "(k - 1) div k = 0" using assms by (intro div_pos_pos_trivial) simp_all
  have "(k * q - 1) div k = (k - 1 + k * (q - 1)) div k" by (simp only: e)
  also have "\<dots> = (k - 1) div k + (q - 1)" by (simp only: div_mult_self2 [OF k])
  also have "\<dots> = q - 1" by (simp add: z)
  finally have "(y - 1) div k = q - 1" by (simp only: q)
  moreover have "y div k = q" using k by (simp add: q)
  ultimately show ?thesis using True by simp
next
  case False
  have k: "k \<noteq> 0" using assms by simp
  from False have "y mod k \<noteq> 0" by (simp add: dvd_eq_mod_eq_0)
  then have m: "0 < y mod k" using pos_mod_sign [OF assms, of y] by simp
  have e: "y - 1 = y mod k - 1 + k * (y div k)" by simp
  have z: "(y mod k - 1) div k = 0"
    using m pos_mod_bound [OF assms, of y] by (intro div_pos_pos_trivial) simp_all
  have "(y - 1) div k = (y mod k - 1 + k * (y div k)) div k" by (simp only: e [symmetric])
  also have "\<dots> = (y mod k - 1) div k + y div k" by (simp only: div_mult_self2 [OF k])
  also have "\<dots> = y div k" by (simp add: z)
  finally show ?thesis using False by simp
qed

lemma days_before_year_step:
  "days_before_year (y + 1) = days_before_year y + gregorian_year_length y"
proof -
  define i4 :: int where "i4 = (if 4 dvd y then 1 else 0)"
  define i100 :: int where "i100 = (if 100 dvd y then 1 else 0)"
  define i400 :: int where "i400 = (if 400 dvd y then 1 else 0)"
  define a where "a = (y - 1) div 4"
  define b where "b = (y - 1) div 100"
  define c where "c = (y - 1) div 400"
  have d4: "y div 4 = a + i4" unfolding a_def i4_def by (rule div_step) simp
  have d100: "y div 100 = b + i100" unfolding b_def i100_def by (rule div_step) simp
  have d400: "y div 400 = c + i400" unfolding c_def i400_def by (rule div_step) simp
  have "400 dvd y \<Longrightarrow> 100 dvd y"
    by (rule dvd_trans [of 100 400 y]) simp_all
  moreover have "100 dvd y \<Longrightarrow> 4 dvd y"
    by (rule dvd_trans [of 4 100 y]) simp_all
  ultimately have len: "gregorian_year_length y = 365 + i4 - i100 + i400"
    unfolding gregorian_year_length_def gregorian_leap_year_def i4_def i100_def i400_def
    by (cases "4 dvd y"; cases "100 dvd y"; cases "400 dvd y") simp_all
  have "days_before_year (y + 1) = y * 365 + y div 4 - y div 100 + y div 400"
    by (simp add: days_before_year_def Let_def)
  also have "\<dots> = y * 365 + (a + i4) - (b + i100) + (c + i400)"
    by (simp only: d4 d100 d400)
  also have "\<dots> = ((y - 1) * 365 + a - b + c) + (365 + i4 - i100 + i400)"
    by (simp add: algebra_simps)
  also have "(y - 1) * 365 + a - b + c = days_before_year y"
    unfolding a_def b_def c_def by (simp add: days_before_year_def Let_def)
  finally show ?thesis by (simp only: len)
qed

lemma days_before_year_sum:
  "days_before_year (int n + 1) = sum_list (map gregorian_year_length [1..int n])"
proof (induction n)
  case 0
  show ?case by (simp add: days_before_year_def)
next
  case (Suc n)
  have "[1..int (Suc n)] = [1..int n] @ [int n + 1]"
    using upto_rec2 [of 1 "int n + 1"] by (simp add: add.commute)
  moreover have "days_before_year (int (Suc n) + 1) =
      days_before_year (int n + 1) + gregorian_year_length (int n + 1)"
    using days_before_year_step [of "int n + 1"] by (simp add: add.commute add.left_commute)
  ultimately show ?case using Suc by simp
qed

lemma days_before_year_gregorian:
  assumes "1 \<le> y"
  shows "days_before_year y = sum_list (map gregorian_year_length [1..y - 1])"
  using days_before_year_sum [of "nat (y - 1)"] assms by simp

lemma days_before_month_gregorian:
  assumes "1 \<le> month" "month \<le> 12"
  shows "days_before_month year month =
         sum_list (map (gregorian_month_length year) [1..month - 1])"
  using month_cases [OF assms]
  by (elim disjE)
    (simp_all add: days_before_month_def DAYS_BEFORE_MONTH_def gregorian_month_length_def
      is_leap_gregorian upto_rec1)

lemma weekday_gregorian:
  assumes "1 \<le> year" "1 \<le> month" "month \<le> 12"
  shows "weekday (Date year month day) = gregorian_day_of_week year month day"
proof -
  have y: "days_before_year year = sum_list (map gregorian_year_length [1..year - 1])"
    using assms(1) by (rule days_before_year_gregorian)
  have m: "days_before_month year month =
      sum_list (map (gregorian_month_length year) [1..month - 1])"
    using assms(2,3) by (rule days_before_month_gregorian)
  have n: "toordinal (Date year month day) = gregorian_day_number year month day"
    by (simp only: toordinal_def ymd2ord_def gregorian_day_number_def y m date.sel)
  have "(k - 1 + 7) mod 7 = (k - 1) mod 7" for k :: int
    by (rule mod_add_self2)
  moreover have "k - 1 + 7 = k + 6" for k :: int
    by simp
  ultimately have "(k + 6) mod 7 = (k - 1) mod 7" for k :: int
    by simp
  then show ?thesis
    by (simp only: weekday_def gregorian_day_of_week_def n)
qed

lemma monday_to_friday_iff:
  assumes "1 \<le> year" "1 \<le> month" "month \<le> 12"
  shows "monday_to_friday (Date year month day) \<longleftrightarrow> weekday (Date year month day) < 5"
  by (simp add: monday_to_friday_def weekday_gregorian [OF assms])

lemma length_filter_upto_card:
  "length (filter P [1..n]) = card {day. 1 \<le> day \<and> day \<le> n \<and> P day}"
proof -
  have "distinct (filter P [1..n])" by simp
  then have "length (filter P [1..n]) = card (set (filter P [1..n]))"
    by (simp only: distinct_card)
  also have "set (filter P [1..n]) = {day. 1 \<le> day \<and> day \<le> n \<and> P day}"
    by auto
  finally show ?thesis .
qed

lemma get_working_days_filter:
  assumes "1 \<le> year" "year \<le> 9999" "1 \<le> month" "month \<le> 12"
  shows "get_working_days year month =
           Inr (int (length (filter (\<lambda>day. weekday (Date year month day) < 5)
                               [1..gregorian_month_length year month])))"
proof -
  obtain day1 where mr: "monthrange year month = Inr (day1, gregorian_month_length year month)"
    using monthrange_valid [OF assms(3,4)] by blast
  have "get_working_days year month =
          count_working_days year month [1..gregorian_month_length year month] 0"
    by (simp add: get_working_days_def mr)
  then show ?thesis
    using assms by (simp add: count_working_days_filter)
qed

text \<open>
  C6. For every year from 1 to 9999 and month from 1 to 12, \<open>get_working_days\<close> returns the
  number of days of that month that fall on Monday to Friday in the Gregorian calendar,
  the month ending on the day the Gregorian rules give. January 2025 has 23 working
  days and February 2025 has 20; June 2024, which begins on a Saturday, has 20,
  October 2023, which begins on a Sunday, has 22, and February has 21 working days in
  the leap years 2024 and 2000 and 20 in 1900, which is no leap year. 1 January 2025
  is a Wednesday and 1 June 2024 a Saturday.
\<close>

theorem get_working_days_counts_weekdays:
  assumes "1 \<le> year" "year \<le> 9999" "1 \<le> month" "month \<le> 12"
  shows "get_working_days year month =
           Inr (int (card {day. 1 \<le> day \<and> day \<le> gregorian_month_length year month \<and>
                                monday_to_friday (Date year month day)}))
         \<and> (\<exists>day1. monthrange year month = Inr (day1, gregorian_month_length year month))
         \<and> get_working_days 2025 1 = Inr 23 \<and> get_working_days 2025 2 = Inr 20
         \<and> get_working_days 2024 6 = Inr 20 \<and> get_working_days 2023 10 = Inr 22
         \<and> get_working_days 2024 2 = Inr 21 \<and> get_working_days 2000 2 = Inr 21
         \<and> get_working_days 1900 2 = Inr 20
         \<and> gregorian_day_of_week 2025 1 1 = 2 \<and> gregorian_day_of_week 2024 6 1 = 5"
proof -
  have general: "get_working_days year month =
      Inr (int (card {day. 1 \<le> day \<and> day \<le> gregorian_month_length year month \<and>
                           monday_to_friday (Date year month day)}))"
    using assms
    by (simp add: get_working_days_filter length_filter_upto_card monday_to_friday_iff)
  have jan: "get_working_days 2025 1 = Inr 23"
    by (simp add: cal_defs upto_rec1)
  have feb: "get_working_days 2025 2 = Inr 20"
    by (simp add: cal_defs upto_rec1)
  have jun: "get_working_days 2024 6 = Inr 20"
    by (simp add: cal_defs upto_rec1)
  have oct: "get_working_days 2023 10 = Inr 22"
    by (simp add: cal_defs upto_rec1)
  have feb24: "get_working_days 2024 2 = Inr 21"
    by (simp add: cal_defs upto_rec1)
  have feb00: "get_working_days 2000 2 = Inr 21"
    by (simp add: cal_defs upto_rec1)
  have feb1900: "get_working_days 1900 2 = Inr 20"
    by (simp add: cal_defs upto_rec1)
  have wed: "gregorian_day_of_week 2025 1 1 = 2"
    using weekday_gregorian [of 2025 1 1] by (simp add: cal_defs)
  have sat: "gregorian_day_of_week 2024 6 1 = 5"
    using weekday_gregorian [of 2024 6 1] by (simp add: cal_defs)
  from general jan feb jun oct feb24 feb00 feb1900 wed sat monthrange_valid [OF assms(3,4)]
  show ?thesis by simp
qed

theorem get_working_days_counts_weekdays_witness:
  "(1::int) \<le> 2024 \<and> (2024::int) \<le> 9999 \<and> (1::int) \<le> 6 \<and> (6::int) \<le> 12 \<and>
   get_working_days 2024 6 = Inr 20 \<and>
   card {day. 1 \<le> day \<and> day \<le> gregorian_month_length 2024 6 \<and>
              monday_to_friday (Date 2024 6 day)} = 20"
proof -
  have v: "(1::int) \<le> 2024" "(2024::int) \<le> 9999" "(1::int) \<le> 6" "(6::int) \<le> 12"
    by simp_all
  note t = get_working_days_counts_weekdays [OF v]
  from t have count: "get_working_days 2024 6 =
      Inr (int (card {day. 1 \<le> day \<and> day \<le> gregorian_month_length 2024 6 \<and>
                           monday_to_friday (Date 2024 6 day)}))"
    by (rule conjunct1)
  from t have june: "get_working_days 2024 6 = Inr 20"
    by blast
  from count june have "int (card {day. 1 \<le> day \<and> day \<le> gregorian_month_length 2024 6 \<and>
                           monday_to_friday (Date 2024 6 day)}) = 20"
    by (simp only: sum.inject)
  then have "card {day. 1 \<le> day \<and> day \<le> gregorian_month_length 2024 6 \<and>
                           monday_to_friday (Date 2024 6 day)} = 20"
    by simp
  with june v show ?thesis by blast
qed

section \<open>Binary64 rounding is exact on representable numbers\<close>

lemma round_half_even_of_int: "round_half_even (of_int n) = n"
  by (simp add: round_half_even_def)

lemma two_powi_nat: "0 \<le> k \<Longrightarrow> (2::rat) powi k = 2 ^ nat k"
  by (simp add: power_int_nonneg_exp)

lemma two_powi_neg: "0 \<le> k \<Longrightarrow> (2::rat) powi (- k) = 1 / 2 ^ nat k"
  by (simp add: power_int_minus_divide power_int_nonneg_exp)

lemma floor_log2_bounds:
  assumes "0 < x"
  shows "2 powi (floor_log2 x) \<le> x \<and> x < 2 powi (floor_log2 x + 1)"
proof (cases "1 \<le> x")
  case True
  define n where "n = \<lfloor>x\<rfloor>"
  have n1: "1 \<le> n" using True by (simp add: n_def)
  then have n0: "0 < n" by simp
  have b1: "1 \<le> bitlen n" using n0 by (simp add: bitlen_alt_def)
  have bb: "2 ^ nat (bitlen n - 1) \<le> n" "n < 2 ^ nat (bitlen n)"
    using bitlen_bounds [OF n0] by simp_all
  have fl: "floor_log2 x = bitlen n - 1" using True by (simp add: floor_log2_def n_def)
  have "(2::rat) powi (bitlen n - 1) = of_int (2 ^ nat (bitlen n - 1))"
    using b1 by (simp add: two_powi_nat)
  also have "\<dots> \<le> of_int n" using bb(1) by (simp only: of_int_le_iff)
  also have "\<dots> \<le> x" by (simp add: n_def)
  finally have lo: "2 powi (floor_log2 x) \<le> x" by (simp add: fl)
  have "x < of_int (n + 1)" using floor_correct [of x] by (simp add: n_def)
  also have "\<dots> \<le> of_int (2 ^ nat (bitlen n))" using bb(2) by (simp only: of_int_le_iff)
  also have "\<dots> = (2::rat) powi (bitlen n)" using b1 by (simp add: two_powi_nat)
  finally have hi: "x < 2 powi (floor_log2 x + 1)" by (simp add: fl)
  from lo hi show ?thesis by simp
next
  case False
  define y where "y = 1 / x"
  define n where "n = \<lfloor>y\<rfloor>"
  define b where "b = bitlen n"
  have y1: "1 < y" using False assms by (simp add: y_def)
  have xy: "x = 1 / y" by (simp add: y_def)
  have n1: "1 \<le> n" using y1 by (simp add: n_def)
  then have n0: "0 < n" by simp
  have b1: "1 \<le> b" using n0 by (simp add: bitlen_alt_def b_def)
  have bb: "2 ^ nat (b - 1) \<le> n" "n < 2 ^ nat b"
    using bitlen_bounds [OF n0] by (simp_all add: b_def)
  have "(2::rat) ^ nat (b - 1) = of_int (2 ^ nat (b - 1))" by simp
  also have "\<dots> \<le> of_int n" using bb(1) by (simp only: of_int_le_iff)
  also have "\<dots> \<le> y" by (simp add: n_def)
  finally have ylo: "2 ^ nat (b - 1) \<le> y" .
  have "y < of_int (n + 1)" using floor_correct [of y] by (simp add: n_def)
  also have "\<dots> \<le> of_int (2 ^ nat b)" using bb(2) by (simp only: of_int_le_iff)
  also have "\<dots> = (2::rat) ^ nat b" by simp
  finally have yhi: "y < 2 ^ nat b" .
  have "nat b = Suc (nat (b - 1))" using b1 by simp
  then have pb: "(2::rat) ^ nat b = 2 * 2 ^ nat (b - 1)" by simp
  show ?thesis
  proof (cases "x * 2 ^ nat (b - 1) = 1")
    case True
    then have fl: "floor_log2 x = 1 - b"
      using False by (simp add: floor_log2_def Let_def y_def n_def b_def)
    have xe: "x = 1 / 2 ^ nat (b - 1)" using True by (simp add: field_simps)
    have p1: "(2::rat) powi (1 - b) = 1 / 2 ^ nat (b - 1)"
      using two_powi_neg [of "b - 1"] b1 by simp
    have "(2::rat) powi (1 - b + 1) = 2 powi (1 - b) * 2"
      by (rule power_int_add_1) simp
    then have p2: "(2::rat) powi (1 - b + 1) = 2 * (1 / 2 ^ nat (b - 1))"
      by (simp only: p1)
    have "(1::rat) / 2 ^ nat (b - 1) < 2 * (1 / 2 ^ nat (b - 1))"
      by (simp add: divide_strict_right_mono)
    then show ?thesis by (simp only: fl p1 p2) (simp add: xe)
  next
    case ne: False
    then have fl: "floor_log2 x = - b"
      using False by (simp add: floor_log2_def Let_def y_def n_def b_def)
    have p1: "(2::rat) powi (- b) = 1 / 2 ^ nat b"
      using two_powi_neg [of b] b1 by simp
    have p2: "(2::rat) powi (- b + 1) = 1 / 2 ^ nat (b - 1)"
      using two_powi_neg [of "b - 1"] b1 by simp
    have "y \<noteq> 2 ^ nat (b - 1)"
    proof
      assume "y = 2 ^ nat (b - 1)"
      then have "x * 2 ^ nat (b - 1) = x * (1 / x)" by (simp add: y_def)
      also have "\<dots> = 1" using assms by simp
      finally show False using ne by simp
    qed
    with ylo have ylo': "2 ^ nat (b - 1) < y" by simp
    have lo: "1 / 2 ^ nat b \<le> x"
      using yhi y1 by (simp add: xy field_simps)
    have hi: "x < 1 / 2 ^ nat (b - 1)"
      using ylo' y1 by (simp add: xy field_simps)
    show ?thesis by (simp only: fl p1 p2) (simp add: lo hi)
  qed
qed


lemma two_powi_less_cancel:
  assumes "(2::rat) powi a < 2 powi b"
  shows "a < b"
proof (rule ccontr)
  assume "\<not> a < b"
  then have "b \<le> a" by simp
  then have "(2::rat) powi b \<le> 2 powi a" by (intro power_int_increasing) simp_all
  with assms show False by simp
qed

lemma round_to_double_exact:
  assumes x: "x = of_int m * 2 powi k" and m: "\<bar>m\<bar> < 2 ^ 53" and k: "- 1074 \<le> k"
  shows "round_to_double x = x"
proof (cases "x = 0")
  case True
  then show ?thesis by (simp add: round_to_double_def)
next
  case False
  define e where "e = max (floor_log2 \<bar>x\<bar>) (- 1022)"
  define d where "d = k - (e - 52)"
  have pos: "0 < \<bar>x\<bar>" using False by simp
  have "e - 52 \<le> k"
  proof (cases "floor_log2 \<bar>x\<bar> \<le> - 1022")
    case True
    then have "e = - 1022" by (simp add: e_def)
    with k show ?thesis by simp
  next
    case False
    then have ee: "e = floor_log2 \<bar>x\<bar>" by (simp add: e_def)
    have "2 powi e \<le> \<bar>x\<bar>" using floor_log2_bounds [OF pos] by (simp add: ee)
    also have "\<bar>x\<bar> = of_int \<bar>m\<bar> * 2 powi k"
      by (simp add: x abs_mult)
    also have "\<dots> < of_int (2 ^ 53) * 2 powi k"
      using m by (intro mult_strict_right_mono) (simp_all only: of_int_less_iff zero_less_power_int zero_less_numeral)
    also have "\<dots> = 2 powi (53 + k)"
      by (simp add: power_int_add)
    finally have "e < 53 + k" by (rule two_powi_less_cancel)
    then show ?thesis by simp
  qed
  then have d0: "0 \<le> d" by (simp add: d_def)
  have q: "(2::rat) powi k = 2 powi d * 2 powi (e - 52)"
    by (simp add: d_def power_int_add [symmetric])
  have "x / 2 powi (e - 52) = of_int m * 2 powi d"
    by (simp add: x q)
  also have "\<dots> = of_int (m * 2 ^ nat d)"
    using d0 by (simp add: power_int_nonneg_exp)
  finally have xq: "x / 2 powi (e - 52) = of_int (m * 2 ^ nat d)" .
  have "round_to_double x = of_int (round_half_even (x / 2 powi (e - 52))) * 2 powi (e - 52)"
    using False by (simp add: round_to_double_def Let_def e_def)
  also have "\<dots> = of_int (m * 2 ^ nat d) * 2 powi (e - 52)"
    by (simp only: xq round_half_even_of_int)
  also have "\<dots> = x / 2 powi (e - 52) * 2 powi (e - 52)"
    by (simp only: xq)
  also have "\<dots> = x" by simp
  finally show ?thesis .
qed

lemma fl_exact:
  assumes "x = of_int m * 2 powi k" "\<bar>m\<bar> < 2 ^ 53" "- 1074 \<le> k" "\<bar>x\<bar> < 2 ^ 1024"
  shows "fl x = Finite x"
  using assms(4) by (auto simp: fl_def round_to_double_exact [OF assms(1-3)])

lemma fl_of_int:
  assumes "\<bar>n\<bar> < 2 ^ 53"
  shows "fl (of_int n) = Finite (of_int n)"
proof (rule fl_exact [where m = n and k = 0])
  show "rat_of_int n = of_int n * 2 powi 0" by simp
  show "\<bar>n\<bar> < 2 ^ 53" by fact
  show "- 1074 \<le> (0::int)" by simp
  have "\<bar>rat_of_int n\<bar> = of_int \<bar>n\<bar>" by simp
  also have "\<dots> < of_int (2 ^ 53)" using assms by (simp only: of_int_less_iff)
  also have "\<dots> < 2 ^ 1024" by simp
  finally show "\<bar>rat_of_int n\<bar> < 2 ^ 1024" .
qed

lemma fl_half_int:
  assumes "\<bar>n\<bar> < 2 ^ 53"
  shows "fl (of_int n / 2) = Finite (of_int n / 2)"
proof (rule fl_exact [where m = n and k = "- 1"])
  show "rat_of_int n / 2 = of_int n * 2 powi (- 1)" by simp
  show "\<bar>n\<bar> < 2 ^ 53" by fact
  show "- 1074 \<le> (- 1::int)" by simp
  have "\<bar>rat_of_int n / 2\<bar> \<le> of_int \<bar>n\<bar>" by simp
  also have "\<dots> < of_int (2 ^ 53)" using assms by (simp only: of_int_less_iff)
  also have "\<dots> < 2 ^ 1024" by simp
  finally show "\<bar>rat_of_int n / 2\<bar> < 2 ^ 1024" .
qed

section \<open>Working days and attended days of a valid month\<close>

lemma weekday_Date:
  "weekday (Date year month day) =
     ((days_before_year year + days_before_month year month + 6) mod 7 + day) mod 7"
  by (simp add: weekday_def toordinal_def ymd2ord_def mod_simps algebra_simps)

lemma weekday_count_cases:
  fixes c :: int
  assumes "0 \<le> c" "c < 7" "n = 28 \<or> n = 29 \<or> n = 30 \<or> n = 31"
  shows "20 \<le> length (filter (\<lambda>day. (c + day) mod 7 < 5) [1..n]) \<and>
         length (filter (\<lambda>day. (c + day) mod 7 < 5) [1..n]) \<le> 23"
proof -
  from assms(1,2) have "c = 0 \<or> c = 1 \<or> c = 2 \<or> c = 3 \<or> c = 4 \<or> c = 5 \<or> c = 6" by arith
  with assms(3) show ?thesis
    by (elim disjE) (simp_all add: upto_rec1)
qed

lemma gregorian_month_length_cases:
  "gregorian_month_length y m = 28 \<or> gregorian_month_length y m = 29 \<or>
   gregorian_month_length y m = 30 \<or> gregorian_month_length y m = 31"
  by (simp add: gregorian_month_length_def)

lemma get_working_days_bounds:
  assumes "1 \<le> year" "year \<le> 9999" "1 \<le> month" "month \<le> 12"
  shows "\<exists>w. get_working_days year month = Inr w \<and> 20 \<le> w \<and> w \<le> 23"
proof -
  define c where "c = (days_before_year year + days_before_month year month + 6) mod 7"
  have c: "0 \<le> c" "c < 7" by (simp_all add: c_def)
  have "get_working_days year month =
      Inr (int (length (filter (\<lambda>day. (c + day) mod 7 < 5) [1..gregorian_month_length year month])))"
    using assms by (simp add: get_working_days_filter weekday_Date c_def)
  moreover note weekday_count_cases [OF c gregorian_month_length_cases [of year month]]
  ultimately show ?thesis by simp
qed

lemma date_le_in_month:
  assumes "1 \<le> gregorian_month_length y m"
  shows "(date_le (Date y m 1) d \<and> date_le d (Date y m (gregorian_month_length y m))) = in_month y m d"
  by (cases d) (auto simp: date_le_def in_month_def)

lemma get_attended_days_valid:
  assumes "1 \<le> year" "year \<le> 9999" "1 \<le> month" "month \<le> 12"
  shows "get_attended_days employee_id year month db =
           (Inr (sum_attended (month_events employee_id year month db) (Finite 0)), db)"
proof -
  obtain day1 where mr: "monthrange year month = Inr (day1, gregorian_month_length year month)"
    using monthrange_valid [OF assms(3,4)] by blast
  have g: "1 \<le> gregorian_month_length year month"
    using gregorian_month_length_bounds(1) [of year month] by linarith
  have d1: "date year month 1 = Inr (Date year month 1)"
    using assms g by (simp add: date_valid)
  have d2: "date year month (gregorian_month_length year month) =
      Inr (Date year month (gregorian_month_length year month))"
    using assms g by (simp add: date_valid)
  show ?thesis
    by (simp add: get_attended_days_def mr d1 d2 query_attendance_def month_events_def
        date_le_in_month [OF g] conj_assoc)
qed

lemma py_truediv_total:
  assumes "b \<noteq> 0"
  shows "\<exists>r. py_truediv a (Finite b) = Inr r"
  using assms by (cases a) simp_all

lemma py_truediv_int_small:
  assumes "\<bar>w\<bar> < 2 ^ 53"
  shows "py_truediv_int a w = py_truediv a (Finite (of_int w))"
  using assms by (simp add: py_truediv_int_def float_of_int_def fl_of_int)

section \<open>The breakdown of a valid month\<close>

lemma calculate_payroll_valid:
  assumes valid: "1 \<le> year" "year \<le> 9999" "1 \<le> month" "month \<le> 12"
    and gw: "get_working_days year month = Inr w" and w: "0 < w" "w < 2 ^ 53"
    and att: "attended = sum_attended (month_events (emp_id e) year month db) (Finite 0)"
    and ratio: "py_truediv attended (Finite (of_int w)) = Inr ratio"
    and gross: "adjusted_gross = py_round (py_mul (py_add (emp_basic_salary e) (emp_allowances e)) ratio) 2"
    and pf: "adjusted_pf = py_mul (py_mul (emp_basic_salary e) ratio) (float_literal (12 / 100))"
    and tax: "final_prof_tax =
        (if py_gt attended (Finite 0) then calculate_professional_tax (emp_basic_salary e) else Finite 0)"
  shows "calculate_payroll e year month db =
    (Inr \<lparr>p_basic_salary = py_round (emp_basic_salary e) 2,
          p_allowances = py_round (emp_allowances e) 2,
          p_gross_salary = py_round adjusted_gross 2,
          p_pf_contribution = py_round adjusted_pf 2,
          p_professional_tax = py_round final_prof_tax 2,
          p_net_salary = py_round (py_sub (py_sub adjusted_gross adjusted_pf) final_prof_tax) 2,
          p_working_days = w,
          p_attended_days = attended,
          p_attendance_ratio = py_round ratio 3\<rparr>, e, db)"
proof -
  have aw: "\<bar>w\<bar> < 2 ^ 53" using w by simp
  have ga: "get_attended_days (emp_id e) year month db = (Inr attended, db)"
    using valid by (simp add: get_attended_days_valid att)
  have div: "py_truediv_int attended w = Inr ratio"
    by (simp only: py_truediv_int_small [OF aw] ratio)
  have adj: "apply_attendance_adjustment (py_add (emp_basic_salary e) (emp_allowances e)) w attended =
      Inr adjusted_gross"
    using w by (simp add: apply_attendance_adjustment_def div gross)
  show ?thesis
    unfolding calculate_payroll_def Let_def
    using w(1) by (simp add: gw ga adj div pf tax)
qed

section \<open>Worked examples\<close>

lemmas payroll_eval = fl_eval py_sub_def py_gt_def calculate_professional_tax_def

text \<open>
  C1. An employee with basic salary 30000 and allowances 5000, January 2025 (23 working
  days), attendance summing to 22.0: the breakdown has attendance ratio 0.957, gross
  salary 33478.26, PF contribution 3443.48, professional tax 150.0 and net salary
  29884.78, each the float that the decimal denotes.
\<close>

theorem payroll_example_january_2025:
  assumes b: "emp_basic_salary e = Finite 30000" and a: "emp_allowances e = Finite 5000"
    and att: "fst (get_attended_days (emp_id e) 2025 1 db) = Inr (Finite 22)"
  shows "\<exists>r. fst (calculate_payroll e 2025 1 db) = Inr r \<and>
           p_working_days r = 23 \<and>
           p_attended_days r = Finite 22 \<and>
           p_attendance_ratio r = float_literal (957 / 1000) \<and>
           p_gross_salary r = float_literal (3347826 / 100) \<and>
           p_pf_contribution r = float_literal (344348 / 100) \<and>
           p_professional_tax r = Finite 150 \<and>
           p_net_salary r = float_literal (2988478 / 100)"
proof -
  have gw: "get_working_days 2025 1 = Inr 23"
    by (simp add: cal_defs upto_rec1)
  have s: "Finite 22 = sum_attended (month_events (emp_id e) 2025 1 db) (Finite 0)"
    using att by (simp add: get_attended_days_valid)
  have ratio: "py_truediv (Finite 22) (Finite (of_int 23)) =
      Inr (Finite (4307790947919605 / 4503599627370496))"
    by (simp add: fl_eval)
  note cp = calculate_payroll_valid [of 2025 1 23 "Finite 22" e db, OF _ _ _ _ gw _ _ s ratio refl refl refl]
  have "calculate_payroll e 2025 1 db =
    (Inr \<lparr>p_basic_salary = Finite 30000, p_allowances = Finite 5000,
          p_gross_salary = float_literal (3347826 / 100),
          p_pf_contribution = float_literal (344348 / 100),
          p_professional_tax = Finite 150,
          p_net_salary = float_literal (2988478 / 100),
          p_working_days = 23, p_attended_days = Finite 22,
          p_attendance_ratio = float_literal (957 / 1000)\<rparr>, e, db)"
    by (subst cp) (simp_all add: a b payroll_eval)
  then show ?thesis by simp
qed

lemmas rows_eval = example_rows_def month_events_def in_month_def gregorian_month_length_def
  gregorian_leap_year_def upto_rec1

theorem payroll_example_january_2025_witness:
  "emp_basic_salary \<lparr>emp_id = 1, emp_basic_salary = Finite 30000, emp_allowances = Finite 5000\<rparr> = Finite 30000 \<and>
   emp_allowances \<lparr>emp_id = 1, emp_basic_salary = Finite 30000, emp_allowances = Finite 5000\<rparr> = Finite 5000 \<and>
   fst (get_attended_days 1 2025 1 \<lparr>attendance_table = example_rows 1 2025 1 PRESENT [1..22]\<rparr>) = Inr (Finite 22) \<and>
   (\<exists>r. fst (calculate_payroll \<lparr>emp_id = 1, emp_basic_salary = Finite 30000, emp_allowances = Finite 5000\<rparr>
              2025 1 \<lparr>attendance_table = example_rows 1 2025 1 PRESENT [1..22]\<rparr>) = Inr r \<and>
        p_working_days r = 23 \<and>
        p_attended_days r = Finite 22 \<and>
        p_attendance_ratio r = float_literal (957 / 1000) \<and>
        p_gross_salary r = float_literal (3347826 / 100) \<and>
        p_pf_contribution r = float_literal (344348 / 100) \<and>
        p_professional_tax r = Finite 150 \<and>
        p_net_salary r = float_literal (2988478 / 100))"
proof -
  have att: "fst (get_attended_days 1 2025 1 \<lparr>attendance_table = example_rows 1 2025 1 PRESENT [1..22]\<rparr>) =
      Inr (Finite 22)"
    by (simp add: get_attended_days_valid rows_eval fl_eval)
  show ?thesis
    using payroll_example_january_2025
      [of "\<lparr>emp_id = 1, emp_basic_salary = Finite 30000, emp_allowances = Finite 5000\<rparr>"
          "\<lparr>attendance_table = example_rows 1 2025 1 PRESENT [1..22]\<rparr>"] att
    by simp
qed

text \<open>
  C10. The attended days are not capped at the working days: with a Present event on each
  of the 28 days of February 2025, Saturdays and Sundays included, the attended days are
  28 against 20 working days, the attendance ratio is 1.4 and the gross salary 49000
  exceeds basic salary plus allowances.
\<close>

theorem attended_days_not_capped:
  "fst (calculate_payroll \<lparr>emp_id = 1, emp_basic_salary = Finite 30000, emp_allowances = Finite 5000\<rparr>
          2025 2 \<lparr>attendance_table = example_rows 1 2025 2 PRESENT [1..28]\<rparr>) =
     Inr \<lparr>p_basic_salary = Finite 30000, p_allowances = Finite 5000,
          p_gross_salary = Finite 49000, p_pf_contribution = Finite 5040,
          p_professional_tax = Finite 150, p_net_salary = Finite 43810,
          p_working_days = 20, p_attended_days = Finite 28,
          p_attendance_ratio = float_literal (14 / 10)\<rparr> \<and>
   py_gt (float_literal (14 / 10)) (Finite 1) \<and>
   py_gt (Finite 49000) (py_add (Finite 30000) (Finite 5000)) \<and>
   \<not> monday_to_friday (Date 2025 2 1) \<and> \<not> monday_to_friday (Date 2025 2 2)"
proof -
  have gw: "get_working_days 2025 2 = Inr 20"
    by (simp add: cal_defs upto_rec1)
  have s: "Finite 28 = sum_attended (month_events
      (emp_id \<lparr>emp_id = 1, emp_basic_salary = Finite 30000, emp_allowances = Finite 5000\<rparr>) 2025 2
      \<lparr>attendance_table = example_rows 1 2025 2 PRESENT [1..28]\<rparr>) (Finite 0)"
    by (simp add: rows_eval fl_eval)
  have ratio: "py_truediv (Finite 28) (Finite (of_int 20)) =
      Inr (Finite (3152519739159347 / 2251799813685248))"
    by (simp add: fl_eval)
  note cp = calculate_payroll_valid [of 2025 2 20 "Finite 28" _ _, OF _ _ _ _ gw _ _ s ratio refl refl refl]
  have run: "fst (calculate_payroll \<lparr>emp_id = 1, emp_basic_salary = Finite 30000, emp_allowances = Finite 5000\<rparr>
          2025 2 \<lparr>attendance_table = example_rows 1 2025 2 PRESENT [1..28]\<rparr>) =
     Inr \<lparr>p_basic_salary = Finite 30000, p_allowances = Finite 5000,
          p_gross_salary = Finite 49000, p_pf_contribution = Finite 5040,
          p_professional_tax = Finite 150, p_net_salary = Finite 43810,
          p_working_days = 20, p_attended_days = Finite 28,
          p_attendance_ratio = float_literal (14 / 10)\<rparr>"
    by (subst cp) (simp_all add: payroll_eval)
  have cmp: "py_gt (float_literal (14 / 10)) (Finite 1)"
    "py_gt (Finite 49000) (py_add (Finite 30000) (Finite 5000))"
    by (simp_all add: payroll_eval)
  have wk: "\<not> monday_to_friday (Date 2025 2 1)" "\<not> monday_to_friday (Date 2025 2 2)"
    by (simp_all add: monday_to_friday_iff cal_defs)
  from run cmp wk show ?thesis by simp
qed

text \<open>
  The reported amounts need not add up. The gross salary enters the net salary after its
  rounding to two decimals, the PF amount before: for basic salary 10125, no allowances
  and one half day in February 2025 the breakdown reports gross 253.12, PF 30.38, tax
  150.0 and net 72.75, while 253.12 - 30.38 - 150.0 rounds to 72.74.
\<close>

theorem net_salary_rounded_fields_example:
  "fst (calculate_payroll \<lparr>emp_id = 1, emp_basic_salary = Finite 10125, emp_allowances = Finite 0\<rparr>
          2025 2 \<lparr>attendance_table = example_rows 1 2025 2 HALF_DAY [3]\<rparr>) =
     Inr \<lparr>p_basic_salary = Finite 10125, p_allowances = Finite 0,
          p_gross_salary = float_literal (25312 / 100),
          p_pf_contribution = float_literal (3038 / 100),
          p_professional_tax = Finite 150,
          p_net_salary = float_literal (7275 / 100),
          p_working_days = 20, p_attended_days = Finite (1 / 2),
          p_attendance_ratio = float_literal (25 / 1000)\<rparr> \<and>
   py_round (py_sub (py_sub (float_literal (25312 / 100)) (float_literal (3038 / 100))) (Finite 150)) 2 =
     float_literal (7274 / 100) \<and>
   float_literal (7274 / 100) \<noteq> float_literal (7275 / 100)"
proof -
  have gw: "get_working_days 2025 2 = Inr 20"
    by (simp add: cal_defs upto_rec1)
  have s: "Finite (1 / 2) = sum_attended (month_events
      (emp_id \<lparr>emp_id = 1, emp_basic_salary = Finite 10125, emp_allowances = Finite 0\<rparr>) 2025 2
      \<lparr>attendance_table = example_rows 1 2025 2 HALF_DAY [3]\<rparr>) (Finite 0)"
    by (simp add: rows_eval fl_eval)
  have ratio: "py_truediv (Finite (1 / 2)) (Finite (of_int 20)) =
      Inr (Finite (3602879701896397 / 144115188075855872))"
    by (simp add: fl_eval)
  note cp = calculate_payroll_valid [of 2025 2 20 "Finite (1 / 2)" _ _, OF _ _ _ _ gw _ _ s ratio refl refl refl]
  have run: "fst (calculate_payroll \<lparr>emp_id = 1, emp_basic_salary = Finite 10125, emp_allowances = Finite 0\<rparr>
          2025 2 \<lparr>attendance_table = example_rows 1 2025 2 HALF_DAY [3]\<rparr>) =
     Inr \<lparr>p_basic_salary = Finite 10125, p_allowances = Finite 0,
          p_gross_salary = float_literal (25312 / 100),
          p_pf_contribution = float_literal (3038 / 100),
          p_professional_tax = Finite 150,
          p_net_salary = float_literal (7275 / 100),
          p_working_days = 20, p_attended_days = Finite (1 / 2),
          p_attendance_ratio = float_literal (25 / 1000)\<rparr>"
    by (subst cp) (simp_all add: payroll_eval)
  have alt: "py_round (py_sub (py_sub (float_literal (25312 / 100)) (float_literal (3038 / 100))) (Finite 150)) 2 =
     float_literal (7274 / 100)"
    by (simp add: payroll_eval)
  have ne: "float_literal (7274 / 100) \<noteq> float_literal (7275 / 100)"
    by (simp add: payroll_eval)
  from run alt ne show ?thesis by simp
qed

section \<open>The attended days are an exact, order-independent sum\<close>

lemma fl_zero: "fl 0 = Finite 0"
  by (simp add: fl_def round_to_double_def)

lemma sum_attended_exact:
  assumes "int k + 2 * int (length rows) < 2 ^ 53"
  shows "sum_attended rows (Finite (of_nat k / 2)) =
         Finite (of_nat k / 2 + (\<Sum>row\<leftarrow>rows. weight (att_status row)))"
  using assms
proof (induction rows arbitrary: k)
  case Nil
  then show ?case by simp
next
  case (Cons row rows)
  show ?case
  proof (cases "att_status row")
    case PRESENT
    have b: "\<bar>int (k + 2)\<bar> < 2 ^ 53" using Cons.prems by simp
    have eq: "(of_nat k / 2 + 1 :: rat) = of_int (int (k + 2)) / 2"
      by (simp add: add_divide_distrib)
    have step: "py_add (Finite (of_nat k / 2)) (Finite 1) = Finite (of_nat (k + 2) / 2)"
      unfolding py_add.simps eq using fl_half_int [OF b] by simp
    have l: "int (k + 2) + 2 * int (length rows) < 2 ^ 53" using Cons.prems by simp
    have "sum_attended (row # rows) (Finite (of_nat k / 2)) =
          sum_attended rows (Finite (of_nat (k + 2) / 2))"
      by (simp add: PRESENT step del: py_add.simps)
    also have "\<dots> = Finite (of_nat (k + 2) / 2 + (\<Sum>row\<leftarrow>rows. weight (att_status row)))"
      by (rule Cons.IH [OF l])
    also have "\<dots> = Finite (of_nat k / 2 + (\<Sum>row\<leftarrow>row # rows. weight (att_status row)))"
      by (simp add: PRESENT add_divide_distrib)
    finally show ?thesis .
  next
    case HALF_DAY
    have b: "\<bar>int (k + 1)\<bar> < 2 ^ 53" using Cons.prems by simp
    have eq: "(of_nat k / 2 + 1 / 2 :: rat) = of_int (int (k + 1)) / 2"
      by (simp add: add_divide_distrib)
    have step: "py_add (Finite (of_nat k / 2)) (Finite (1 / 2)) = Finite (of_nat (k + 1) / 2)"
      unfolding py_add.simps eq using fl_half_int [OF b] by simp
    have l: "int (k + 1) + 2 * int (length rows) < 2 ^ 53" using Cons.prems by simp
    have "sum_attended (row # rows) (Finite (of_nat k / 2)) =
          sum_attended rows (Finite (of_nat (k + 1) / 2))"
      by (simp add: HALF_DAY step del: py_add.simps)
    also have "\<dots> = Finite (of_nat (k + 1) / 2 + (\<Sum>row\<leftarrow>rows. weight (att_status row)))"
      by (rule Cons.IH [OF l])
    also have "\<dots> = Finite (of_nat k / 2 + (\<Sum>row\<leftarrow>row # rows. weight (att_status row)))"
      by (simp add: HALF_DAY add_divide_distrib)
    finally show ?thesis .
  next
    case ABSENT
    have "int k + 2 * int (length rows) < 2 ^ 53" using Cons.prems by simp
    from Cons.IH [OF this] show ?thesis
      by (simp add: ABSENT)
  qed
qed

lemma sum_attended_exact_0:
  assumes "length rows \<le> 31"
  shows "sum_attended rows (Finite 0) = Finite (\<Sum>row\<leftarrow>rows. weight (att_status row))"
proof -
  have "int 0 + 2 * int (length rows) < 2 ^ 53" using assms by simp
  from sum_attended_exact [OF this] show ?thesis by simp
qed

lemma month_events_length:
  assumes "unique_employee_date_attendance db"
  shows "length (month_events employee_id y m db) \<le> 31"
proof -
  define g where "g = (\<lambda>row::attendance. (att_employee_id row, att_date row))"
  define rows where "rows = month_events employee_id y m db"
  have "distinct (map g (attendance_table db))"
    using assms by (simp add: unique_employee_date_attendance_def g_def)
  then have "distinct (map g rows)"
    unfolding rows_def month_events_def by (rule distinct_map_filter)
  then have dr: "distinct rows" and inj: "inj_on g (set rows)"
    by (simp_all add: distinct_map)
  have mem: "\<And>row. row \<in> set rows \<Longrightarrow>
      att_employee_id row = employee_id \<and> in_month y m (att_date row)"
    by (simp add: rows_def month_events_def)
  have "inj_on (\<lambda>row. d_day (att_date row)) (set rows)"
  proof (rule inj_onI)
    fix r1 r2
    assume r: "r1 \<in> set rows" "r2 \<in> set rows" and d: "d_day (att_date r1) = d_day (att_date r2)"
    from mem [OF r(1)] mem [OF r(2)] d have "att_date r1 = att_date r2"
      by (simp add: in_month_def date.expand)
    with mem [OF r(1)] mem [OF r(2)] have "g r1 = g r2" by (simp add: g_def)
    with inj r show "r1 = r2" by (simp add: inj_on_def)
  qed
  with dr have dd: "distinct (map (\<lambda>row. d_day (att_date row)) rows)"
    by (simp add: distinct_map)
  have "set (map (\<lambda>row. d_day (att_date row)) rows) \<subseteq> {1..31}"
    using mem gregorian_month_length_bounds(2) [of y m] by (force simp: in_month_def)
  then have "card (set (map (\<lambda>row. d_day (att_date row)) rows)) \<le> card {1..31::int}"
    by (intro card_mono) simp_all
  then have "length (map (\<lambda>row. d_day (att_date row)) rows) \<le> 31"
    by (simp only: distinct_card [OF dd]) simp
  then show ?thesis by (simp add: rows_def)
qed

lemma attended_days_exact:
  assumes "1 \<le> year" "year \<le> 9999" "1 \<le> month" "month \<le> 12"
    and "unique_employee_date_attendance db"
  shows "get_attended_days employee_id year month db =
           (Inr (Finite (\<Sum>row\<leftarrow>month_events employee_id year month db. weight (att_status row))), db)"
  using assms by (simp add: get_attended_days_valid sum_attended_exact_0 month_events_length)

lemma weight_nonneg: "0 \<le> weight st"
  by (cases st) simp_all

lemma unique_permuted:
  assumes "mset (attendance_table db') = mset (attendance_table db)"
  shows "unique_employee_date_attendance db' = unique_employee_date_attendance db"
proof -
  have "mset (map (\<lambda>row. (att_employee_id row, att_date row)) (attendance_table db')) =
        mset (map (\<lambda>row. (att_employee_id row, att_date row)) (attendance_table db))"
    using assms by (metis mset_map)
  then show ?thesis
    unfolding unique_employee_date_attendance_def by (rule mset_eq_imp_distinct_iff)
qed

lemma month_events_permuted:
  assumes "mset (attendance_table db') = mset (attendance_table db)"
  shows "(\<Sum>row\<leftarrow>month_events employee_id y m db'. weight (att_status row)) =
         (\<Sum>row\<leftarrow>month_events employee_id y m db. weight (att_status row))"
proof -
  have "mset (month_events employee_id y m db') = mset (month_events employee_id y m db)"
    using assms by (simp add: month_events_def)
  then have "mset (map (\<lambda>row. weight (att_status row)) (month_events employee_id y m db')) =
             mset (map (\<lambda>row. weight (att_status row)) (month_events employee_id y m db))"
    by (metis mset_map)
  then show ?thesis by (metis sum_mset_sum_list)
qed

text \<open>
  C7. For a valid month and an attendance table that satisfies its uniqueness constraint,
  \<open>get_attended_days\<close> returns the sum of the weights (Present 1, Half Day 1/2, Absent 0)
  of the employee's events dated within the month, events outside it excluded; the sum
  is exact, and every permutation of the table gives the same result.
\<close>

theorem attended_days_weighted_sum:
  assumes "1 \<le> year" "year \<le> 9999" "1 \<le> month" "month \<le> 12"
    and "unique_employee_date_attendance db"
  shows "fst (get_attended_days employee_id year month db) =
           Inr (Finite (\<Sum>row\<leftarrow>month_events employee_id year month db. weight (att_status row)))
         \<and> (\<forall>db'. mset (attendance_table db') = mset (attendance_table db) \<longrightarrow>
               fst (get_attended_days employee_id year month db') =
               fst (get_attended_days employee_id year month db))"
proof -
  have a: "fst (get_attended_days employee_id year month db) =
      Inr (Finite (\<Sum>row\<leftarrow>month_events employee_id year month db. weight (att_status row)))"
    using assms by (simp add: attended_days_exact)
  have "fst (get_attended_days employee_id year month db') =
        fst (get_attended_days employee_id year month db)"
    if p: "mset (attendance_table db') = mset (attendance_table db)" for db'
  proof -
    have "unique_employee_date_attendance db'"
      using unique_permuted [OF p] assms(5) by simp
    then show ?thesis
      using assms(1-4) by (simp add: attended_days_exact a month_events_permuted [OF p])
  qed
  with a show ?thesis by blast
qed

theorem attended_days_weighted_sum_witness:
  "(1::int) \<le> 2025 \<and> (2025::int) \<le> 9999 \<and> (1::int) \<le> 1 \<and> (1::int) \<le> 12 \<and>
   unique_employee_date_attendance
     \<lparr>attendance_table = example_rows 1 2025 1 PRESENT [2, 3] @ example_rows 1 2025 1 HALF_DAY [6] @
        example_rows 1 2025 1 ABSENT [7] @ example_rows 1 2025 2 PRESENT [3] @
        example_rows 2 2025 1 PRESENT [2]\<rparr> \<and>
   fst (get_attended_days 1 2025 1
     \<lparr>attendance_table = example_rows 1 2025 1 PRESENT [2, 3] @ example_rows 1 2025 1 HALF_DAY [6] @
        example_rows 1 2025 1 ABSENT [7] @ example_rows 1 2025 2 PRESENT [3] @
        example_rows 2 2025 1 PRESENT [2]\<rparr>) = Inr (Finite (5 / 2)) \<and>
   mset (attendance_table
     \<lparr>attendance_table = rev (example_rows 1 2025 1 PRESENT [2, 3] @ example_rows 1 2025 1 HALF_DAY [6] @
        example_rows 1 2025 1 ABSENT [7] @ example_rows 1 2025 2 PRESENT [3] @
        example_rows 2 2025 1 PRESENT [2])\<rparr>) =
   mset (attendance_table
     \<lparr>attendance_table = example_rows 1 2025 1 PRESENT [2, 3] @ example_rows 1 2025 1 HALF_DAY [6] @
        example_rows 1 2025 1 ABSENT [7] @ example_rows 1 2025 2 PRESENT [3] @
        example_rows 2 2025 1 PRESENT [2]\<rparr>) \<and>
   fst (get_attended_days 1 2025 1
     \<lparr>attendance_table = rev (example_rows 1 2025 1 PRESENT [2, 3] @ example_rows 1 2025 1 HALF_DAY [6] @
        example_rows 1 2025 1 ABSENT [7] @ example_rows 1 2025 2 PRESENT [3] @
        example_rows 2 2025 1 PRESENT [2])\<rparr>) = Inr (Finite (5 / 2))"
proof -
  define db where "db = \<lparr>attendance_table = example_rows 1 2025 1 PRESENT [2, 3] @
        example_rows 1 2025 1 HALF_DAY [6] @ example_rows 1 2025 1 ABSENT [7] @
        example_rows 1 2025 2 PRESENT [3] @ example_rows 2 2025 1 PRESENT [2]\<rparr>"
  define db' where "db' = \<lparr>attendance_table = rev (attendance_table db)\<rparr>"
  have u: "unique_employee_date_attendance db"
    by (simp add: db_def unique_employee_date_attendance_def example_rows_def)
  have p: "mset (attendance_table db') = mset (attendance_table db)"
    by (simp add: db'_def)
  have v: "(\<Sum>row\<leftarrow>month_events 1 2025 1 db. weight (att_status row)) = 5 / 2"
    by (simp add: db_def month_events_def example_rows_def in_month_def
        gregorian_month_length_def)
  from attended_days_weighted_sum [of 2025 1 db 1] u p v
  have "fst (get_attended_days 1 2025 1 db) = Inr (Finite (5 / 2)) \<and>
        fst (get_attended_days 1 2025 1 db') = Inr (Finite (5 / 2))"
    by simp
  with u p show ?thesis
    unfolding db'_def db_def by simp
qed

section \<open>Validation and the professional tax of the breakdown\<close>

text \<open>
  The calculator only reads its two objects: the query leaves the session as it is, and
  no attribute of the employee is assigned.
\<close>

lemma get_attended_days_session:
  "snd (get_attended_days employee_id year month db) = db"
  by (simp add: get_attended_days_def query_attendance_def split: sum.splits prod.splits)

lemma calculate_payroll_state:
  "snd (calculate_payroll e year month db) = (e, db)"
proof -
  have "\<And>x db'. get_attended_days (emp_id e) year month db = (x, db') \<Longrightarrow> db' = db"
    using get_attended_days_session [of "emp_id e" year month db] by simp
  then show ?thesis
    by (auto simp: calculate_payroll_def Let_def split: sum.splits prod.splits)
qed

lemma calculate_payroll_total:
  assumes valid: "1 \<le> year" "year \<le> 9999" "1 \<le> month" "month \<le> 12"
  obtains w attended ratio where
    "get_working_days year month = Inr w" "20 \<le> w" "w \<le> 23"
    "attended = sum_attended (month_events (emp_id e) year month db) (Finite 0)"
    "py_truediv attended (Finite (of_int w)) = Inr ratio"
    "calculate_payroll e year month db =
      (Inr \<lparr>p_basic_salary = py_round (emp_basic_salary e) 2,
            p_allowances = py_round (emp_allowances e) 2,
            p_gross_salary = py_round (py_round (py_mul (py_add (emp_basic_salary e) (emp_allowances e)) ratio) 2) 2,
            p_pf_contribution = py_round (py_mul (py_mul (emp_basic_salary e) ratio) (float_literal (12 / 100))) 2,
            p_professional_tax = py_round (if py_gt attended (Finite 0)
                 then calculate_professional_tax (emp_basic_salary e) else Finite 0) 2,
            p_net_salary = py_round (py_sub (py_sub
                 (py_round (py_mul (py_add (emp_basic_salary e) (emp_allowances e)) ratio) 2)
                 (py_mul (py_mul (emp_basic_salary e) ratio) (float_literal (12 / 100))))
                 (if py_gt attended (Finite 0)
                  then calculate_professional_tax (emp_basic_salary e) else Finite 0)) 2,
            p_working_days = w,
            p_attended_days = attended,
            p_attendance_ratio = py_round ratio 3\<rparr>, e, db)"
proof -
  obtain w where w: "get_working_days year month = Inr w" "20 \<le> w" "w \<le> 23"
    using get_working_days_bounds [OF valid] by blast
  define attended where "attended = sum_attended (month_events (emp_id e) year month db) (Finite 0)"
  have "rat_of_int w \<noteq> 0" using w by simp
  then obtain ratio where r: "py_truediv attended (Finite (of_int w)) = Inr ratio"
    using py_truediv_total by blast
  have w0: "0 < w" "w < 2 ^ 53" using w by simp_all
  note cp = calculate_payroll_valid [OF valid w(1) w0 attended_def r refl refl refl]
  show ?thesis
    by (rule that [OF w attended_def r cp])
qed

lemma tax_round: "py_round (calculate_professional_tax s) 2 = calculate_professional_tax s"
  by (simp add: calculate_professional_tax_def fl_eval)

lemma round_zero: "py_round (Finite 0) n = Finite 0"
  by (simp add: fl_def round_to_double_def round_half_even_def)


lemma py_le_iff_lt_or_eq: "py_le b (Finite 0) \<longleftrightarrow> py_lt b (Finite 0) \<or> py_eq b (Finite 0)"
  by (cases b) auto

text \<open>
  C9. \<open>validate_payroll_data\<close> rejects exactly when the basic salary is at most zero or the
  allowances are negative, with a message that names an offending field, and accepts
  with the empty message every positive basic salary with non-negative allowances; the
  calculator has no such guard: for a valid month it returns a breakdown whatever the
  salary terms are.
\<close>

theorem validate_payroll_data_contract:
  "(fst (validate_payroll_data b a) = False \<longleftrightarrow> py_le b (Finite 0) \<or> py_lt a (Finite 0)) \<and>
   (\<not> fst (validate_payroll_data b a) \<longrightarrow>
      snd (validate_payroll_data b a) \<noteq> [] \<and>
      (snd (validate_payroll_data b a) = ''Basic salary cannot be negative'' \<and> py_lt b (Finite 0) \<or>
       snd (validate_payroll_data b a) = ''Allowances cannot be negative'' \<and> py_lt a (Finite 0) \<or>
       snd (validate_payroll_data b a) = ''Basic salary must be greater than zero'' \<and>
         py_eq b (Finite 0))) \<and>
   (py_gt b (Finite 0) \<and> py_le (Finite 0) a \<longrightarrow> validate_payroll_data b a = (True, [])) \<and>
   (1 \<le> year \<and> year \<le> 9999 \<and> 1 \<le> month \<and> month \<le> 12 \<longrightarrow>
      (\<exists>r. fst (calculate_payroll \<lparr>emp_id = i, emp_basic_salary = b, emp_allowances = a\<rparr>
                 year month db) = Inr r))"
proof -
  have p1: "fst (validate_payroll_data b a) = False \<longleftrightarrow> py_le b (Finite 0) \<or> py_lt a (Finite 0)"
    by (auto simp: validate_payroll_data_def py_le_iff_lt_or_eq)
  have p2: "\<not> fst (validate_payroll_data b a) \<longrightarrow>
      snd (validate_payroll_data b a) \<noteq> [] \<and>
      (snd (validate_payroll_data b a) = ''Basic salary cannot be negative'' \<and> py_lt b (Finite 0) \<or>
       snd (validate_payroll_data b a) = ''Allowances cannot be negative'' \<and> py_lt a (Finite 0) \<or>
       snd (validate_payroll_data b a) = ''Basic salary must be greater than zero'' \<and>
         py_eq b (Finite 0))"
    by (simp add: validate_payroll_data_def)
  have p3: "py_gt b (Finite 0) \<and> py_le (Finite 0) a \<longrightarrow> validate_payroll_data b a = (True, [])"
    by (cases b; cases a) (auto simp: validate_payroll_data_def py_gt_def)
  have p4: "\<exists>r. fst (calculate_payroll \<lparr>emp_id = i, emp_basic_salary = b, emp_allowances = a\<rparr>
                 year month db) = Inr r"
    if v: "1 \<le> year" "year \<le> 9999" "1 \<le> month" "month \<le> 12"
    using calculate_payroll_total [OF v, of "\<lparr>emp_id = i, emp_basic_salary = b, emp_allowances = a\<rparr>" db]
    by (metis fst_conv)
  from p1 p2 p3 p4 show ?thesis by blast
qed

theorem validate_payroll_data_contract_witness:
  "py_le (Finite (- 1000)) (Finite 0) \<and>
   validate_payroll_data (Finite (- 1000)) (Finite 2000) = (False, ''Basic salary cannot be negative'') \<and>
   py_gt (Finite 30000) (Finite 0) \<and> py_le (Finite 0) (Finite 5000) \<and>
   validate_payroll_data (Finite 30000) (Finite 5000) = (True, []) \<and>
   (1::int) \<le> 2025 \<and> (2025::int) \<le> 9999 \<and> (1::int) \<le> 1 \<and> (1::int) \<le> 12 \<and>
   (\<exists>r. fst (calculate_payroll \<lparr>emp_id = 1, emp_basic_salary = Finite (- 1000), emp_allowances = Finite 2000\<rparr>
              2025 1 \<lparr>attendance_table = []\<rparr>) = Inr r)"
  using validate_payroll_data_contract [of "Finite (- 1000)" "Finite 2000" 2025 1 1 "\<lparr>attendance_table = []\<rparr>"]
    validate_payroll_data_contract [of "Finite 30000" "Finite 5000" 2025 1 1 "\<lparr>attendance_table = []\<rparr>"]
  by (simp add: py_gt_def validate_payroll_data_def)

lemma sum_nonneg_cases:
  assumes "a = Finite x" "0 \<le> x"
  shows "py_gt a (Finite 0) \<or> a = Finite 0"
  using assms by (auto simp: py_gt_def)

text \<open>
  C5. For a valid month the professional tax of the breakdown is the stepper applied to
  the full basic salary whenever the attended days are positive, whatever the attendance
  ratio is, and it is 0.0 otherwise; under the table's uniqueness constraint the attended
  days are positive or zero, so the tax is replaced by 0.0 exactly when they are zero.
\<close>

theorem professional_tax_on_unadjusted_basic:
  assumes "1 \<le> year" "year \<le> 9999" "1 \<le> month" "month \<le> 12"
  shows "\<exists>r. fst (calculate_payroll e year month db) = Inr r \<and>
           (py_gt (p_attended_days r) (Finite 0) \<longrightarrow>
              p_professional_tax r = calculate_professional_tax (emp_basic_salary e)) \<and>
           (\<not> py_gt (p_attended_days r) (Finite 0) \<longrightarrow> p_professional_tax r = Finite 0) \<and>
           (unique_employee_date_attendance db \<longrightarrow>
              py_gt (p_attended_days r) (Finite 0) \<or> p_attended_days r = Finite 0)"
proof -
  obtain w attended ratio where
    att: "attended = sum_attended (month_events (emp_id e) year month db) (Finite 0)" and
    cp: "calculate_payroll e year month db =
      (Inr \<lparr>p_basic_salary = py_round (emp_basic_salary e) 2,
            p_allowances = py_round (emp_allowances e) 2,
            p_gross_salary = py_round (py_round (py_mul (py_add (emp_basic_salary e) (emp_allowances e)) ratio) 2) 2,
            p_pf_contribution = py_round (py_mul (py_mul (emp_basic_salary e) ratio) (float_literal (12 / 100))) 2,
            p_professional_tax = py_round (if py_gt attended (Finite 0)
                 then calculate_professional_tax (emp_basic_salary e) else Finite 0) 2,
            p_net_salary = py_round (py_sub (py_sub
                 (py_round (py_mul (py_add (emp_basic_salary e) (emp_allowances e)) ratio) 2)
                 (py_mul (py_mul (emp_basic_salary e) ratio) (float_literal (12 / 100))))
                 (if py_gt attended (Finite 0)
                  then calculate_professional_tax (emp_basic_salary e) else Finite 0)) 2,
            p_working_days = w,
            p_attended_days = attended,
            p_attendance_ratio = py_round ratio 3\<rparr>, e, db)"
    using calculate_payroll_total [OF assms, of e db] by metis
  have u: "py_gt attended (Finite 0) \<or> attended = Finite 0"
    if "unique_employee_date_attendance db"
  proof -
    have "attended = Finite (\<Sum>row\<leftarrow>month_events (emp_id e) year month db. weight (att_status row))"
      using that by (simp add: att sum_attended_exact_0 month_events_length)
    moreover have "0 \<le> (\<Sum>row\<leftarrow>month_events (emp_id e) year month db. weight (att_status row))"
      by (intro sum_list_nonneg) (auto simp: weight_nonneg)
    ultimately show ?thesis by (rule sum_nonneg_cases)
  qed
  show ?thesis
    using u by (simp add: cp tax_round round_zero del: py_round.simps)
qed

theorem professional_tax_on_unadjusted_basic_witness:
  "(1::int) \<le> 2025 \<and> (2025::int) \<le> 9999 \<and> (1::int) \<le> 2 \<and> (2::int) \<le> 12 \<and>
   unique_employee_date_attendance \<lparr>attendance_table = example_rows 1 2025 2 HALF_DAY [3]\<rparr> \<and>
   (\<exists>r. fst (calculate_payroll \<lparr>emp_id = 1, emp_basic_salary = Finite 10125, emp_allowances = Finite 0\<rparr>
              2025 2 \<lparr>attendance_table = example_rows 1 2025 2 HALF_DAY [3]\<rparr>) = Inr r \<and>
        py_gt (p_attended_days r) (Finite 0) \<and>
        p_professional_tax r = calculate_professional_tax (Finite 10125)) \<and>
   (\<exists>r. fst (calculate_payroll \<lparr>emp_id = 1, emp_basic_salary = Finite 10125, emp_allowances = Finite 0\<rparr>
              2025 2 \<lparr>attendance_table = []\<rparr>) = Inr r \<and>
        \<not> py_gt (p_attended_days r) (Finite 0) \<and> p_professional_tax r = Finite 0)"
proof -
  have u: "unique_employee_date_attendance \<lparr>attendance_table = example_rows 1 2025 2 HALF_DAY [3]\<rparr>"
    by (simp add: unique_employee_date_attendance_def example_rows_def)
  obtain r where r: "fst (calculate_payroll \<lparr>emp_id = 1, emp_basic_salary = Finite 10125, emp_allowances = Finite 0\<rparr>
              2025 2 \<lparr>attendance_table = example_rows 1 2025 2 HALF_DAY [3]\<rparr>) = Inr r"
    "py_gt (p_attended_days r) (Finite 0) \<longrightarrow>
       p_professional_tax r = calculate_professional_tax (Finite 10125)"
    using professional_tax_on_unadjusted_basic [of 2025 2
        "\<lparr>emp_id = 1, emp_basic_salary = Finite 10125, emp_allowances = Finite 0\<rparr>"
        "\<lparr>attendance_table = example_rows 1 2025 2 HALF_DAY [3]\<rparr>"]
    by auto
  have "get_attended_days 1 2025 2 \<lparr>attendance_table = example_rows 1 2025 2 HALF_DAY [3]\<rparr> =
      (Inr (Finite (1 / 2)), \<lparr>attendance_table = example_rows 1 2025 2 HALF_DAY [3]\<rparr>)"
    by (simp add: get_attended_days_valid rows_eval fl_eval)
  moreover have gw: "get_working_days 2025 2 = Inr 20"
    by (simp add: cal_defs upto_rec1)
  ultimately have a: "p_attended_days r = Finite (1 / 2)"
    using r(1)
    by (auto simp: calculate_payroll_def Let_def apply_attendance_adjustment_def
        py_truediv_int_def float_of_int_def fl_of_int split: sum.splits if_splits)
  obtain r' where r': "fst (calculate_payroll \<lparr>emp_id = 1, emp_basic_salary = Finite 10125, emp_allowances = Finite 0\<rparr>
              2025 2 \<lparr>attendance_table = []\<rparr>) = Inr r'"
    "\<not> py_gt (p_attended_days r') (Finite 0) \<longrightarrow> p_professional_tax r' = Finite 0"
    using professional_tax_on_unadjusted_basic [of 2025 2
        "\<lparr>emp_id = 1, emp_basic_salary = Finite 10125, emp_allowances = Finite 0\<rparr>"
        "\<lparr>attendance_table = []\<rparr>"]
    by auto
  have "get_attended_days 1 2025 2 \<lparr>attendance_table = []\<rparr> =
      (Inr (Finite 0), \<lparr>attendance_table = []\<rparr>)"
    by (simp add: get_attended_days_valid rows_eval)
  then have a': "p_attended_days r' = Finite 0"
    using r'(1) gw
    by (auto simp: calculate_payroll_def Let_def apply_attendance_adjustment_def
        py_truediv_int_def float_of_int_def fl_of_int split: sum.splits if_splits)
  from u r a r' a' show ?thesis by (auto simp: py_gt_def)
qed

section \<open>Zero attendance\<close>

lemma py_add_Finite:
  assumes "py_add x y = Finite g"
  obtains a b where "x = Finite a" "y = Finite b"
  using assms by (cases x; cases y) simp_all

lemma float_literal_012:
  "float_literal (12 / 100) = Finite (1080863910568919 / 9007199254740992)"
  "float_literal (3 / 25) = Finite (1080863910568919 / 9007199254740992)"
  by (simp_all add: fl_eval)

text \<open>
  The claim on zero attendance fails when the sum of basic salary and allowances
  overflows: with both equal to \<open>2\<^sup>1\<^sup>0\<^sup>2\<^sup>3\<close> and no event in January 2025 the gross and the net
  salary are NaN.
\<close>

theorem zero_attendance_overflow_counterexample:
  "fst (get_attended_days 1 2025 1 \<lparr>attendance_table = []\<rparr>) = Inr (Finite 0) \<and>
   fst (calculate_payroll \<lparr>emp_id = 1, emp_basic_salary = Finite (2 ^ 1023), emp_allowances = Finite (2 ^ 1023)\<rparr>
          2025 1 \<lparr>attendance_table = []\<rparr>) =
     Inr \<lparr>p_basic_salary = Finite (2 ^ 1023), p_allowances = Finite (2 ^ 1023),
          p_gross_salary = NaN, p_pf_contribution = Finite 0,
          p_professional_tax = Finite 0, p_net_salary = NaN,
          p_working_days = 23, p_attended_days = Finite 0,
          p_attendance_ratio = Finite 0\<rparr> \<and>
   NaN \<noteq> Finite 0"
proof -
  have ga: "fst (get_attended_days 1 2025 1 \<lparr>attendance_table = []\<rparr>) = Inr (Finite 0)"
    by (simp add: get_attended_days_valid rows_eval)
  have gw: "get_working_days 2025 1 = Inr 23"
    by (simp add: cal_defs upto_rec1)
  have s: "Finite 0 = sum_attended (month_events
      (emp_id \<lparr>emp_id = 1, emp_basic_salary = Finite (2 ^ 1023), emp_allowances = Finite (2 ^ 1023)\<rparr>) 2025 1
      \<lparr>attendance_table = []\<rparr>) (Finite 0)"
    by (simp add: rows_eval)
  have ratio: "py_truediv (Finite 0) (Finite (of_int 23)) = Inr (Finite 0)"
    by (simp add: fl_eval)
  have big: "py_add (Finite x) (Finite x) = PosInf" if "x = 2 ^ 1023" for x
    unfolding that by (simp add: fl_eval)
  have rb: "py_round (Finite x) 2 = Finite (2 ^ 1023)" if "x = 2 ^ 1023" for x
    unfolding that by (simp add: fl_eval)
  have z: "py_mul (Finite x) (Finite 0) = Finite 0" for x
    by (simp add: fl_zero)
  note cp = calculate_payroll_valid [of 2025 1 23 "Finite 0" _ _, OF _ _ _ _ gw _ _ s ratio refl refl refl]
  have "fst (calculate_payroll \<lparr>emp_id = 1, emp_basic_salary = Finite (2 ^ 1023), emp_allowances = Finite (2 ^ 1023)\<rparr>
          2025 1 \<lparr>attendance_table = []\<rparr>) =
     Inr \<lparr>p_basic_salary = Finite (2 ^ 1023), p_allowances = Finite (2 ^ 1023),
          p_gross_salary = NaN, p_pf_contribution = Finite 0,
          p_professional_tax = Finite 0, p_net_salary = NaN,
          p_working_days = 23, p_attended_days = Finite 0,
          p_attendance_ratio = Finite 0\<rparr>"
    by (subst cp)
      (simp_all add: big rb z float_literal_012 py_sub_def py_gt_def signed_inf_def fl_zero round_zero
        del: py_add.simps py_round.simps py_mul.simps,
       simp add: signed_inf_def fl_zero round_half_even_def)
  with ga show ?thesis by simp
qed

lemma all_absent_sum:
  assumes "\<forall>row \<in> set rows. att_status row = ABSENT"
  shows "sum_attended rows acc = acc"
  using assms by (induction rows arbitrary: acc) simp_all

text \<open>
  C4 (amended). For every employee whose basic salary plus allowances is a finite float
  and every valid month: if the attended days are 0.0, as they are when the month has no
  event or only Absent events, then gross salary, PF contribution, professional tax and
  net salary of the breakdown are all 0.0, whatever the salary bracket.
\<close>

theorem zero_attendance_zero_pay:
  assumes valid: "1 \<le> year" "year \<le> 9999" "1 \<le> month" "month \<le> 12"
    and zero: "fst (get_attended_days (emp_id e) year month db) = Inr (Finite 0)"
    and fin: "py_add (emp_basic_salary e) (emp_allowances e) = Finite g"
  shows "(\<exists>r. fst (calculate_payroll e year month db) = Inr r \<and>
            p_attended_days r = Finite 0 \<and> p_gross_salary r = Finite 0 \<and>
            p_pf_contribution r = Finite 0 \<and> p_professional_tax r = Finite 0 \<and>
            p_net_salary r = Finite 0) \<and>
         ((\<forall>row \<in> set (month_events (emp_id e) year month db). att_status row = ABSENT) \<longrightarrow>
            fst (get_attended_days (emp_id e) year month db) = Inr (Finite 0))"
proof -
  obtain w where w: "get_working_days year month = Inr w" "20 \<le> w" "w \<le> 23"
    using get_working_days_bounds [OF valid] by blast
  have w0: "0 < w" "w < 2 ^ 53" using w by simp_all
  have s: "Finite 0 = sum_attended (month_events (emp_id e) year month db) (Finite 0)"
    using zero valid by (simp add: get_attended_days_valid)
  have ratio: "py_truediv (Finite 0) (Finite (of_int w)) = Inr (Finite 0)"
    using w0 by (simp add: fl_zero)
  obtain a b where ab: "emp_basic_salary e = Finite b" "emp_allowances e = Finite a"
    using fin by (rule py_add_Finite)
  note cp = calculate_payroll_valid [OF valid w(1) w0 s ratio refl refl refl]
  have m0: "\<And>x. py_mul (Finite x) (Finite 0) = Finite 0" "\<And>x. py_mul (Finite 0) (Finite x) = Finite 0"
    by (simp_all add: fl_zero)
  have s0: "py_sub (Finite 0) (Finite 0) = Finite 0"
    by (simp add: py_sub_def fl_zero)
  have gm: "py_mul (py_add (emp_basic_salary e) (emp_allowances e)) (Finite 0) = Finite 0"
    by (simp only: fin m0)
  have bm: "py_mul (emp_basic_salary e) (Finite 0) = Finite 0"
    by (simp only: ab m0)
  have run: "\<exists>r. fst (calculate_payroll e year month db) = Inr r \<and>
            p_attended_days r = Finite 0 \<and> p_gross_salary r = Finite 0 \<and>
            p_pf_contribution r = Finite 0 \<and> p_professional_tax r = Finite 0 \<and>
            p_net_salary r = Finite 0"
    by (simp add: cp gm bm m0 s0 round_zero float_literal_012 py_gt_def
        del: py_round.simps py_mul.simps py_add.simps)
  have "fst (get_attended_days (emp_id e) year month db) = Inr (Finite 0)"
    if "\<forall>row \<in> set (month_events (emp_id e) year month db). att_status row = ABSENT"
    using valid that by (simp add: get_attended_days_valid all_absent_sum)
  with run show ?thesis by blast
qed

theorem zero_attendance_zero_pay_witness:
  "(1::int) \<le> 2025 \<and> (2025::int) \<le> 9999 \<and> (1::int) \<le> 1 \<and> (1::int) \<le> 12 \<and>
   map att_status (month_events 1 2025 1 \<lparr>attendance_table = example_rows 1 2025 1 ABSENT [6, 7]\<rparr>) =
     [ABSENT, ABSENT] \<and>
   fst (get_attended_days 1 2025 1 \<lparr>attendance_table = example_rows 1 2025 1 ABSENT [6, 7]\<rparr>) =
     Inr (Finite 0) \<and>
   py_add (Finite 50000) (Finite 0) = Finite 50000 \<and>
   calculate_professional_tax (Finite 50000) = Finite 200 \<and>
   (\<exists>r. fst (calculate_payroll \<lparr>emp_id = 1, emp_basic_salary = Finite 50000, emp_allowances = Finite 0\<rparr>
              2025 1 \<lparr>attendance_table = example_rows 1 2025 1 ABSENT [6, 7]\<rparr>) = Inr r \<and>
        p_attended_days r = Finite 0 \<and> p_gross_salary r = Finite 0 \<and>
        p_pf_contribution r = Finite 0 \<and> p_professional_tax r = Finite 0 \<and>
        p_net_salary r = Finite 0)"
proof -
  have a: "map att_status (month_events 1 2025 1 \<lparr>attendance_table = example_rows 1 2025 1 ABSENT [6, 7]\<rparr>) =
     [ABSENT, ABSENT]"
    by (simp add: rows_eval)
  have z: "fst (get_attended_days 1 2025 1 \<lparr>attendance_table = example_rows 1 2025 1 ABSENT [6, 7]\<rparr>) =
     Inr (Finite 0)"
    by (simp add: get_attended_days_valid rows_eval)
  have f: "py_add (Finite 50000) (Finite 0) = Finite 50000"
    by (simp add: fl_eval)
  have t: "calculate_professional_tax (Finite 50000) = Finite 200"
    by (simp add: calculate_professional_tax_def)
  from zero_attendance_zero_pay
      [of 2025 1 "\<lparr>emp_id = 1, emp_basic_salary = Finite 50000, emp_allowances = Finite 0\<rparr>"
          "\<lparr>attendance_table = example_rows 1 2025 1 ABSENT [6, 7]\<rparr>" 50000] a z f t
  show ?thesis by simp
qed

section \<open>Rounding to an integer, ties to even\<close>

lemma round_half_even_floor_cases:
  "round_half_even x = \<lfloor>x\<rfloor> \<or> round_half_even x = \<lfloor>x\<rfloor> + 1"
  by (simp add: round_half_even_def Let_def)

lemma round_half_even_lower: "x - 1 / 2 \<le> of_int (round_half_even x)"
proof -
  have "x - of_int \<lfloor>x\<rfloor> < 1" by linarith
  then show ?thesis
    by (auto simp: round_half_even_def Let_def)
qed

lemma round_half_even_upper: "of_int (round_half_even x) \<le> x + 1 / 2"
proof -
  have "0 \<le> x - of_int \<lfloor>x\<rfloor>" by linarith
  then show ?thesis
    by (auto simp: round_half_even_def Let_def) linarith+
qed

lemma round_half_even_mono:
  assumes "x \<le> y"
  shows "round_half_even x \<le> round_half_even y"
proof (cases "\<lfloor>x\<rfloor> = \<lfloor>y\<rfloor>")
  case True
  have "x - of_int \<lfloor>x\<rfloor> \<le> y - of_int \<lfloor>y\<rfloor>" using assms True by simp
  then show ?thesis
    unfolding round_half_even_def Let_def using True by auto
next
  case False
  have "\<lfloor>x\<rfloor> \<le> \<lfloor>y\<rfloor>" using assms by (rule floor_mono)
  with False have "\<lfloor>x\<rfloor> + 1 \<le> \<lfloor>y\<rfloor>" by simp
  moreover have "round_half_even x \<le> \<lfloor>x\<rfloor> + 1"
    using round_half_even_floor_cases [of x] by auto
  moreover have "\<lfloor>y\<rfloor> \<le> round_half_even y"
    using round_half_even_floor_cases [of y] by auto
  ultimately show ?thesis by linarith
qed

lemma round_half_even_minus: "round_half_even (- x) = - round_half_even x"
proof (cases "x = of_int \<lfloor>x\<rfloor>")
  case True
  then obtain n where n: "x = of_int n" ..
  have "round_half_even (of_int (- n)) = - n" by (rule round_half_even_of_int)
  then show ?thesis by (simp add: n round_half_even_of_int)
next
  case False
  define f where "f = \<lfloor>x\<rfloor>"
  have r: "of_int f < x" "x < of_int f + 1"
    using False unfolding f_def by linarith+
  have fm: "\<lfloor>- x\<rfloor> = - f - 1"
    by (rule floor_unique) (use r in simp_all)
  have e: "even (- f - 1) \<longleftrightarrow> odd f" by simp
  consider "x - of_int f < 1 / 2" | "x - of_int f = 1 / 2" | "1 / 2 < x - of_int f"
    by linarith
  then show ?thesis
  proof cases
    case 1
    then have "round_half_even x = f" by (simp add: round_half_even_def Let_def f_def)
    moreover have "round_half_even (- x) = - f"
      using 1 by (simp add: round_half_even_def Let_def fm)
    ultimately show ?thesis by simp
  next
    case 2
    then have "round_half_even x = (if even f then f else f + 1)"
      by (simp add: round_half_even_def Let_def f_def)
    moreover have "- x - of_int (- f - 1) = 1 / 2" using 2 by simp
    then have "round_half_even (- x) = (if odd f then - f - 1 else - f)"
      by (simp add: round_half_even_def Let_def fm)
    ultimately show ?thesis by simp
  next
    case 3
    then have "round_half_even x = f + 1" by (simp add: round_half_even_def Let_def f_def)
    moreover have "- x - of_int (- f - 1) < 1 / 2" using 3 by simp
    then have "round_half_even (- x) = - f - 1"
      by (simp add: round_half_even_def Let_def fm)
    ultimately show ?thesis by simp
  qed
qed

lemma round_half_even_nonneg: "- 1 / 2 \<le> x \<Longrightarrow> 0 \<le> round_half_even x"
proof -
  assume a: "- 1 / 2 \<le> x"
  have "round_half_even (- 1 / 2) = 0"
    by (simp add: round_half_even_def Let_def floor_rat_numeral_simps)
  with round_half_even_mono [OF a] show ?thesis by simp
qed

section \<open>Binary64 rounding is monotone and accurate\<close>

lemma quantum_pos: "0 < quantum x"
  by (simp add: quantum_def)

lemma quantum_minus: "quantum (- x) = quantum x"
  by (simp add: quantum_def)

lemma round_to_double_quantum:
  "x \<noteq> 0 \<Longrightarrow> round_to_double x = of_int (round_half_even (x / quantum x)) * quantum x"
  by (simp add: round_to_double_def quantum_def Let_def)

lemma round_to_double_zero: "round_to_double 0 = 0"
  by (simp add: round_to_double_def)

lemma round_to_double_minus: "round_to_double (- x) = - round_to_double x"
  by (cases "x = 0")
    (simp_all add: round_to_double_zero round_to_double_quantum quantum_minus round_half_even_minus)

lemma round_to_double_nonneg:
  assumes "0 \<le> x"
  shows "0 \<le> round_to_double x"
proof (cases "x = 0")
  case True
  then show ?thesis by (simp add: round_to_double_zero)
next
  case False
  have "0 \<le> x / quantum x" using assms quantum_pos [of x] by simp
  then have "round_half_even 0 \<le> round_half_even (x / quantum x)"
    by (rule round_half_even_mono)
  moreover have "round_half_even 0 = 0" using round_half_even_of_int [of 0] by simp
  ultimately show ?thesis
    using quantum_pos [of x] by (simp add: round_to_double_quantum [OF False])
qed

lemma two_powi_shift: "(2::rat) powi (int n + k) = 2 ^ n * 2 powi k"
  by (subst power_int_add) simp_all

lemma floor_log2_mono:
  assumes "0 < x" "x \<le> y"
  shows "floor_log2 x \<le> floor_log2 y"
proof -
  have y: "0 < y" using assms by simp
  have "2 powi floor_log2 x \<le> x" using floor_log2_bounds [OF assms(1)] by simp
  also note assms(2)
  also have "y < 2 powi (floor_log2 y + 1)" using floor_log2_bounds [OF y] by simp
  finally have "floor_log2 x < floor_log2 y + 1" by (rule two_powi_less_cancel)
  then show ?thesis by simp
qed

lemma scaled_upper:
  assumes "0 < x"
  shows "x / quantum x < 2 ^ 53"
proof -
  define e where "e = max (floor_log2 \<bar>x\<bar>) (- 1022)"
  have "x < 2 powi (floor_log2 x + 1)" using floor_log2_bounds [OF assms] by simp
  also have "\<dots> \<le> 2 powi (e + 1)"
    using assms by (intro power_int_increasing) (simp_all add: e_def)
  also have "\<dots> = 2 ^ 53 * quantum x"
  proof -
    have "(2::rat) powi (e + 1) = 2 powi (int 53 + (e - 52))"
      by (rule arg_cong [where f = "\<lambda>k. 2 powi k"]) simp
    also have "\<dots> = 2 ^ 53 * 2 powi (e - 52)" by (rule two_powi_shift)
    finally show ?thesis by (simp add: quantum_def e_def)
  qed
  finally show ?thesis using quantum_pos [of x] by (simp add: field_simps)
qed

lemma scaled_lower:
  assumes "0 < x" "- 1022 \<le> floor_log2 x"
  shows "2 ^ 52 \<le> x / quantum x"
proof -
  have e: "max (floor_log2 \<bar>x\<bar>) (- 1022) = floor_log2 x" using assms by simp
  have "(2::rat) powi floor_log2 x = 2 powi (int 52 + (floor_log2 x - 52))"
    by (rule arg_cong [where f = "\<lambda>k. 2 powi k"]) simp
  also have "\<dots> = 2 ^ 52 * 2 powi (floor_log2 x - 52)" by (rule two_powi_shift)
  finally have "2 ^ 52 * quantum x = 2 powi floor_log2 x"
    by (simp add: quantum_def e)
  also have "\<dots> \<le> x" using floor_log2_bounds [OF assms(1)] by simp
  finally show ?thesis using quantum_pos [of x] by (simp add: field_simps)
qed

lemma round_to_double_upper_binade:
  assumes "0 < x"
  shows "round_to_double x \<le> 2 ^ 53 * quantum x"
proof -
  have "x / quantum x \<le> of_int (2 ^ 53)" using scaled_upper [OF assms] by simp
  then have "round_half_even (x / quantum x) \<le> round_half_even (of_int (2 ^ 53))"
    by (rule round_half_even_mono)
  then have "round_half_even (x / quantum x) \<le> 2 ^ 53"
    by (simp only: round_half_even_of_int)
  then have "rat_of_int (round_half_even (x / quantum x)) \<le> of_int (2 ^ 53)"
    by (simp only: of_int_le_iff)
  then show ?thesis
    using assms quantum_pos [of x] by (simp add: round_to_double_quantum)
qed

lemma round_to_double_lower_binade:
  assumes "0 < x" "- 1022 \<le> floor_log2 x"
  shows "2 ^ 52 * quantum x \<le> round_to_double x"
proof -
  have "of_int (2 ^ 52) \<le> x / quantum x" using scaled_lower [OF assms] by simp
  then have "round_half_even (of_int (2 ^ 52)) \<le> round_half_even (x / quantum x)"
    by (rule round_half_even_mono)
  then have "2 ^ 52 \<le> round_half_even (x / quantum x)"
    by (simp only: round_half_even_of_int)
  then have "rat_of_int (2 ^ 52) \<le> of_int (round_half_even (x / quantum x))"
    by (simp only: of_int_le_iff)
  then show ?thesis
    using assms quantum_pos [of x] by (simp add: round_to_double_quantum)
qed

lemma round_to_double_mono_pos:
  assumes "0 < x" "x \<le> y"
  shows "round_to_double x \<le> round_to_double y"
proof -
  have y: "0 < y" using assms by simp
  define ex where "ex = max (floor_log2 \<bar>x\<bar>) (- 1022)"
  define ey where "ey = max (floor_log2 \<bar>y\<bar>) (- 1022)"
  have le: "ex \<le> ey"
    using floor_log2_mono [OF assms] assms y by (simp add: ex_def ey_def)
  show ?thesis
  proof (cases "ex = ey")
    case True
    then have q: "quantum x = quantum y" by (simp add: quantum_def ex_def ey_def)
    have "x / quantum y \<le> y / quantum y"
      using assms(2) quantum_pos [of y] by (simp add: divide_right_mono)
    then have "round_half_even (x / quantum y) \<le> round_half_even (y / quantum y)"
      by (rule round_half_even_mono)
    then have "rat_of_int (round_half_even (x / quantum y)) * quantum y \<le>
               of_int (round_half_even (y / quantum y)) * quantum y"
      using quantum_pos [of y] by (simp only: mult_le_cancel_right_pos of_int_le_iff)
    then show ?thesis
      using assms y by (simp add: round_to_double_quantum q)
  next
    case False
    with le have lt: "ex + 1 \<le> ey" by simp
    then have un: "- 1022 \<le> floor_log2 y"
      using y by (simp add: ex_def ey_def)
    have "(2::rat) powi (ex - 52 + 1) \<le> 2 powi (ey - 52)"
      using lt by (intro power_int_increasing) simp_all
    moreover have "(2::rat) powi (ex - 52 + 1) = 2 powi (ex - 52) * 2"
      by (rule power_int_add_1) simp
    ultimately have qq: "2 * quantum x \<le> quantum y"
      by (simp add: quantum_def ex_def ey_def)
    have "round_to_double x \<le> 2 ^ 53 * quantum x"
      by (rule round_to_double_upper_binade [OF assms(1)])
    also have "\<dots> = 2 ^ 52 * (2 * quantum x)" by simp
    also have "\<dots> \<le> 2 ^ 52 * quantum y"
      using qq by (simp only: mult_le_cancel_left_pos zero_less_power zero_less_numeral)
    also have "\<dots> \<le> round_to_double y"
      by (rule round_to_double_lower_binade [OF y un])
    finally show ?thesis .
  qed
qed

lemma round_to_double_mono:
  assumes "x \<le> y"
  shows "round_to_double x \<le> round_to_double y"
proof -
  consider "0 < x" | "x \<le> 0" "0 \<le> y" | "y < 0" by linarith
  then show ?thesis
  proof cases
    case 1
    then show ?thesis using assms by (rule round_to_double_mono_pos)
  next
    case 2
    have "0 \<le> round_to_double (- x)" using 2(1) by (intro round_to_double_nonneg) simp
    then have "round_to_double x \<le> 0" by (simp add: round_to_double_minus)
    also have "0 \<le> round_to_double y" using 2(2) by (rule round_to_double_nonneg)
    finally show ?thesis .
  next
    case 3
    have "round_to_double (- y) \<le> round_to_double (- x)"
      using 3 assms by (intro round_to_double_mono_pos) simp_all
    then show ?thesis by (simp add: round_to_double_minus)
  qed
qed

lemma round_to_double_error:
  assumes "x \<noteq> 0"
  shows "\<bar>round_to_double x - x\<bar> \<le> quantum x / 2"
proof -
  define k where "k = round_half_even (x / quantum x)"
  have "\<bar>rat_of_int k - x / quantum x\<bar> \<le> 1 / 2"
    using round_half_even_lower [of "x / quantum x"] round_half_even_upper [of "x / quantum x"]
    unfolding k_def by linarith
  then have "\<bar>rat_of_int k - x / quantum x\<bar> * quantum x \<le> 1 / 2 * quantum x"
    using quantum_pos [of x] by (simp only: mult_le_cancel_right_pos)
  moreover have "\<bar>rat_of_int k - x / quantum x\<bar> * quantum x = \<bar>rat_of_int k * quantum x - x\<bar>"
  proof -
    have "\<bar>rat_of_int k - x / quantum x\<bar> * quantum x =
          \<bar>(rat_of_int k - x / quantum x) * quantum x\<bar>"
      using quantum_pos [of x] by (simp add: abs_mult)
    also have "(rat_of_int k - x / quantum x) * quantum x = rat_of_int k * quantum x - x"
      using quantum_pos [of x] by (simp add: field_simps)
    finally show ?thesis .
  qed
  ultimately show ?thesis
    by (simp add: round_to_double_quantum [OF assms] k_def)
qed

lemma quantum_bound:
  assumes "x \<noteq> 0"
  shows "quantum x \<le> \<bar>x\<bar> / 2 ^ 52 + 1 / 2 ^ 1074"
proof (cases "- 1022 \<le> floor_log2 \<bar>x\<bar>")
  case True
  have pos: "0 < \<bar>x\<bar>" using assms by simp
  have "2 ^ 52 \<le> \<bar>x\<bar> / quantum \<bar>x\<bar>"
    by (rule scaled_lower [OF pos]) (use True in simp)
  then have "quantum x \<le> \<bar>x\<bar> / 2 ^ 52"
    using quantum_pos [of x] by (simp add: quantum_def field_simps)
  then show ?thesis by (simp add: add_increasing2)
next
  case False
  then have "quantum x = 2 powi (- 1074)" by (simp add: quantum_def)
  also have "\<dots> = 1 / 2 ^ 1074" by (simp add: power_int_minus_divide)
  finally show ?thesis by simp
qed

lemma round_to_double_error_bound:
  "\<bar>round_to_double x - x\<bar> \<le> \<bar>x\<bar> / 2 ^ 53 + 1 / 2 ^ 1075"
proof (cases "x = 0")
  case True
  then show ?thesis by (simp add: round_to_double_zero)
next
  case False
  have "\<bar>round_to_double x - x\<bar> \<le> quantum x / 2" by (rule round_to_double_error [OF False])
  also have "\<dots> \<le> (\<bar>x\<bar> / 2 ^ 52 + 1 / 2 ^ 1074) / 2"
    using quantum_bound [OF False] by simp
  also have "\<dots> = \<bar>x\<bar> / 2 ^ 53 + 1 / 2 ^ 1075" by simp
  finally show ?thesis .
qed

section \<open>The net salary of valid salary terms is not negative\<close>

lemmas rtd_eval = round_to_double_def floor_log2_def round_half_even_def
  bitlen_numeral_simps floor_rat_numeral_simps Let_def

lemma round_to_double_fixed_points:
  "round_to_double 150 = 150" "round_to_double 200 = 200" "round_to_double 214 = 214"
  "round_to_double 644 = 644" "round_to_double (- (1 / 512)) = - (1 / 512)"
  "round_to_double (11 / 512) = 11 / 512" "round_to_double 2 = 2"
  by (simp_all add: rtd_eval)

lemma round_to_double_upper_nonneg:
  assumes "0 \<le> x"
  shows "round_to_double x \<le> x + x / 2 ^ 53 + 1 / 2 ^ 1075"
  using round_to_double_error_bound [of x] assms by (simp add: abs_le_iff)

lemma round_to_double_lower_nonneg:
  assumes "0 \<le> x"
  shows "x - x / 2 ^ 53 - 1 / 2 ^ 1075 \<le> round_to_double x"
  using round_to_double_error_bound [of x] assms by (simp add: abs_le_iff)

lemma net_core:
  fixes b a r t c x1 y1 p1 G1 n1 n2 :: rat and K :: int
  assumes b: "0 < b" "round_to_double b = b" and a: "0 \<le> a"
    and r: "11 / 512 \<le> r" "r \<le> 2"
    and t: "t = (if b \<le> 10000 then 0 else if b \<le> 30000 then 150 else 200)"
    and c: "c = 1080863910568919 / 9007199254740992"
    and x1: "x1 = round_to_double (round_to_double (b + a) * r)"
    and y1: "y1 = round_to_double (b * r)"
    and p1: "p1 = round_to_double (y1 * c)"
    and K: "K = round_half_even (x1 * 100)"
    and G1: "G1 = round_to_double (of_int K / 100)"
    and n1: "n1 = round_to_double (G1 - p1)"
    and n2: "n2 = round_to_double (n1 - t)"
  shows "0 \<le> y1" "y1 \<le> x1" "0 \<le> p1" "p1 \<le> max x1 1" "0 \<le> K"
    "- (1 / 512) \<le> n1" "- (1 / 512) \<le> n2" "0 \<le> round_half_even (n2 * 100)"
proof -
  have r0: "0 < r" using r(1) by simp
  have "round_to_double b \<le> round_to_double (b + a)"
    using a by (intro round_to_double_mono) simp
  then have g1: "b \<le> round_to_double (b + a)" by (simp add: b(2))
  then have "b * r \<le> round_to_double (b + a) * r"
    using r0 by (simp add: mult_right_mono)
  then show yx: "y1 \<le> x1" unfolding x1 y1 by (rule round_to_double_mono)
  have br0: "0 \<le> b * r" using b(1) r0 by simp
  then show y0: "0 \<le> y1" unfolding y1 by (rule round_to_double_nonneg)
  have x0: "0 \<le> x1" using y0 yx by simp
  have yc0: "0 \<le> y1 * c" using y0 by (simp add: c)
  then show p0: "0 \<le> p1" unfolding p1 by (rule round_to_double_nonneg)
  have yc: "y1 * c \<le> x1 / 8" using yx y0 by (simp add: c)
  have pu: "p1 \<le> x1 / 8 + (x1 / 8) / 2 ^ 53 + 1 / 2 ^ 1075"
    using round_to_double_upper_nonneg [OF yc0] yc unfolding p1 [symmetric]
    by (simp add: field_simps)
  then show "p1 \<le> max x1 1" using x0 by (simp add: max_def)
  have Kl: "x1 * 100 - 1 / 2 \<le> of_int K" unfolding K by (rule round_half_even_lower)
  show K0: "0 \<le> K" unfolding K using x0 by (intro round_half_even_nonneg) simp
  then have Kq0: "0 \<le> rat_of_int K / 100" by simp
  have Gl: "of_int K / 100 - (of_int K / 100) / 2 ^ 53 - 1 / 2 ^ 1075 \<le> G1"
    unfolding G1 by (rule round_to_double_lower_nonneg [OF Kq0])
  have G0: "0 \<le> G1" unfolding G1 by (rule round_to_double_nonneg [OF Kq0])
  have xlo: "(if b \<le> 10000 then 0 else if b \<le> 30000 then 214 else 644) \<le> x1"
  proof -
    have 1: "214 \<le> y1" if "10000 < b"
    proof -
      have "214 \<le> 10000 * (11 / 512 :: rat)" by simp
      also have "\<dots> \<le> b * r" using that r(1) by (intro mult_mono) simp_all
      finally have "round_to_double 214 \<le> round_to_double (b * r)"
        by (rule round_to_double_mono)
      then show ?thesis by (simp add: y1 round_to_double_fixed_points)
    qed
    have 2: "644 \<le> y1" if "30000 < b"
    proof -
      have "644 \<le> 30000 * (11 / 512 :: rat)" by simp
      also have "\<dots> \<le> b * r" using that r(1) by (intro mult_mono) simp_all
      finally have "round_to_double 644 \<le> round_to_double (b * r)"
        by (rule round_to_double_mono)
      then show ?thesis by (simp add: y1 round_to_double_fixed_points)
    qed
    from 1 2 yx x0 show ?thesis by auto
  qed
  have diff: "(if t = 0 then - (1 / 512) else t) \<le> G1 - p1"
  proof (cases "b \<le> 10000")
    case True
    then have t0: "t = 0" by (simp add: t)
    show ?thesis
    proof (cases "K = 0")
      case True
      then have "x1 \<le> 1 / 200" using Kl by simp
      then have "p1 \<le> 1 / 1000" using pu by simp
      moreover have "G1 = 0" by (simp add: G1 True round_to_double_zero)
      ultimately show ?thesis by (simp add: t0)
    next
      case False
      with K0 have "1 \<le> K" by simp
      then have "1 / 100 \<le> rat_of_int K / 100" by simp
      with Gl Kl pu have "0 \<le> G1 - p1" by simp
      then show ?thesis by (simp add: t0)
    qed
  next
    case False
    then have tt: "t = (if b \<le> 30000 then 150 else 200)" by (simp add: t)
    have xx: "(if b \<le> 30000 then 214 else 644) \<le> x1" using xlo False by simp
    have "t \<le> G1 - p1"
      using Gl Kl pu xx tt by (simp split: if_splits)
    moreover have "t \<noteq> 0" by (simp add: tt)
    ultimately show ?thesis by simp
  qed
  have n1t: "(if t = 0 then - (1 / 512) else t) \<le> n1"
  proof -
    have "round_to_double (if t = 0 then - (1 / 512) else t) \<le> round_to_double (G1 - p1)"
      using diff by (rule round_to_double_mono)
    then show ?thesis
      by (simp add: n1 t round_to_double_fixed_points split: if_splits)
  qed
  then show "- (1 / 512) \<le> n1" by (simp add: t split: if_splits)
  have "- (1 / 512) \<le> n1 - t" using n1t by (simp add: t split: if_splits)
  then have "round_to_double (- (1 / 512)) \<le> round_to_double (n1 - t)"
    by (rule round_to_double_mono)
  then show n2l: "- (1 / 512) \<le> n2" by (simp add: n2 round_to_double_fixed_points)
  then show "0 \<le> round_half_even (n2 * 100)"
    by (intro round_half_even_nonneg) simp
qed

lemma fl_not_neginf:
  assumes "- (2 ^ 1024) < round_to_double x"
  shows "fl x = PosInf \<or> (fl x = Finite (round_to_double x) \<and> round_to_double x < 2 ^ 1024)"
  using assms by (auto simp: fl_def Let_def)

lemma sub_top:
  assumes "D = PosInf \<or> D = NaN"
  shows "py_sub D (Finite t) = PosInf \<or> py_sub D (Finite t) = NaN"
  using assms by (auto simp: py_sub_def)

lemma not_negative_cases:
  assumes "x = PosInf \<or> x = NaN \<or> (\<exists>v. x = Finite v \<and> 0 \<le> v)"
  shows "\<not> py_lt x (Finite 0)"
  using assms by auto

lemma round_not_negative:
  assumes "N = PosInf \<or> N = NaN \<or> (\<exists>v. N = Finite v \<and> 0 \<le> round_half_even (v * 100))"
  shows "\<not> py_lt (py_round N 2) (Finite 0)"
proof -
  consider "N = PosInf \<or> N = NaN" | v where "N = Finite v" "0 \<le> round_half_even (v * 100)"
    using assms by blast
  then show ?thesis
  proof cases
    case 1
    then show ?thesis by auto
  next
    case 2
    have q: "0 \<le> rat_of_int (round_half_even (v * 100)) / 100" using 2(2) by simp
    have "0 \<le> round_to_double (rat_of_int (round_half_even (v * 100)) / 100)"
      by (rule round_to_double_nonneg [OF q])
    then have "fl (rat_of_int (round_half_even (v * 100)) / 100) = PosInf \<or>
        (\<exists>w. fl (rat_of_int (round_half_even (v * 100)) / 100) = Finite w \<and> 0 \<le> w)"
      by (auto simp: fl_def Let_def)
    then show ?thesis by (auto simp: 2(1))
  qed
qed

lemma net_not_negative_float:
  fixes b a r t :: rat
  assumes b: "0 < b" "round_to_double b = b" and a: "0 \<le> a"
    and r: "11 / 512 \<le> r" "r \<le> 2"
    and t: "t = (if b \<le> 10000 then 0 else if b \<le> 30000 then 150 else 200)"
  shows "\<not> py_lt
      (py_round (py_sub (py_sub (py_round (py_mul (py_add (Finite b) (Finite a)) (Finite r)) 2)
         (py_mul (py_mul (Finite b) (Finite r)) (float_literal (12 / 100)))) (Finite t)) 2)
      (Finite 0)"
proof -
  define c :: rat where "c = 1080863910568919 / 9007199254740992"
  define g1 where "g1 = round_to_double (b + a)"
  define x1 where "x1 = round_to_double (g1 * r)"
  define y1 where "y1 = round_to_double (b * r)"
  define p1 where "p1 = round_to_double (y1 * c)"
  define K where "K = round_half_even (x1 * 100)"
  define G1 where "G1 = round_to_double (of_int K / 100)"
  define n1 where "n1 = round_to_double (G1 - p1)"
  define n2 where "n2 = round_to_double (n1 - t)"
  note core = net_core [OF b a r t c_def x1_def [unfolded g1_def] y1_def p1_def K_def G1_def
      n1_def n2_def]
  have lit: "float_literal (12 / 100) = Finite c"
    by (simp add: c_def fl_eval)
  have r0: "0 < r" using r(1) by simp
  define G' where "G' = py_round (py_mul (py_add (Finite b) (Finite a)) (Finite r)) 2"
  define p' where "p' = py_mul (py_mul (Finite b) (Finite r)) (Finite c)"
  have g10: "0 < g1"
  proof -
    have "round_to_double b \<le> round_to_double (b + a)"
      using a by (intro round_to_double_mono) simp
    then show ?thesis using b by (simp add: g1_def)
  qed
  have x10: "0 \<le> x1" using core(1,2) by simp
  have G10: "0 \<le> G1"
    unfolding G1_def using core(5) by (intro round_to_double_nonneg) simp
  have G: "G' = PosInf \<or> (G' = Finite G1 \<and> x1 < 2 ^ 1024)"
  proof -
    have "fl (b + a) = PosInf \<or> fl (b + a) = Finite g1"
      using fl_not_neginf [of "b + a"] g10 by (auto simp: g1_def)
    then show ?thesis
    proof
      assume "fl (b + a) = PosInf"
      then show ?thesis using r0 by (simp add: G'_def signed_inf_def)
    next
      assume f: "fl (b + a) = Finite g1"
      have "fl (g1 * r) = PosInf \<or> (fl (g1 * r) = Finite x1 \<and> x1 < 2 ^ 1024)"
        using fl_not_neginf [of "g1 * r"] x10 by (auto simp: x1_def)
      then show ?thesis
      proof
        assume "fl (g1 * r) = PosInf"
        then show ?thesis by (simp add: G'_def f)
      next
        assume x: "fl (g1 * r) = Finite x1 \<and> x1 < 2 ^ 1024"
        have "fl (of_int K / 100) = PosInf \<or> fl (of_int K / 100) = Finite G1"
          using fl_not_neginf [of "of_int K / 100"] G10 by (auto simp: G1_def)
        then show ?thesis using x by (auto simp: G'_def f K_def)
      qed
    qed
  qed
  have p: "p' = PosInf \<or> p' = Finite p1" and pfin: "x1 < 2 ^ 1024 \<Longrightarrow> p' = Finite p1"
  proof -
    have y: "fl (b * r) = PosInf \<or> (fl (b * r) = Finite y1 \<and> y1 < 2 ^ 1024)"
      using fl_not_neginf [of "b * r"] core(1) by (auto simp: y1_def)
    have pp: "fl (y1 * c) = PosInf \<or> (fl (y1 * c) = Finite p1 \<and> p1 < 2 ^ 1024)"
      using fl_not_neginf [of "y1 * c"] core(3) by (auto simp: p1_def)
    show "p' = PosInf \<or> p' = Finite p1"
      using y pp by (auto simp: p'_def signed_inf_def c_def)
    assume xf: "x1 < 2 ^ 1024"
    then have "y1 < 2 ^ 1024" using core(2) by simp
    then have y': "fl (b * r) = Finite y1"
      using core(1) by (auto simp: fl_def Let_def y1_def)
    have "p1 < 2 ^ 1024" using core(4) xf by (simp add: max_def split: if_splits)
    then have "fl (y1 * c) = Finite p1"
      using core(3) by (auto simp: fl_def Let_def p1_def)
    then show "p' = Finite p1" by (simp add: p'_def y')
  qed
  define D' where "D' = py_sub G' p'"
  have D: "D' = PosInf \<or> D' = NaN \<or> D' = Finite n1"
  proof -
    from G show ?thesis
    proof
      assume "G' = PosInf"
      then show ?thesis using p by (auto simp: D'_def py_sub_def)
    next
      assume g: "G' = Finite G1 \<and> x1 < 2 ^ 1024"
      then have pf: "p' = Finite p1" using pfin by simp
      have "fl (G1 - p1) = PosInf \<or> fl (G1 - p1) = Finite n1"
        using fl_not_neginf [of "G1 - p1"] core(6) by (auto simp: n1_def)
      then show ?thesis using g pf by (auto simp: D'_def py_sub_def)
    qed
  qed
  define N' where "N' = py_sub D' (Finite t)"
  have N: "N' = PosInf \<or> N' = NaN \<or> N' = Finite n2"
  proof -
    consider "D' = PosInf \<or> D' = NaN" | "D' = Finite n1" using D by blast
    then show ?thesis
    proof cases
      case 1
      then show ?thesis using sub_top [of D' t] by (auto simp: N'_def)
    next
      case 2
      have "fl (n1 - t) = PosInf \<or> fl (n1 - t) = Finite n2"
        using fl_not_neginf [of "n1 - t"] core(7) by (auto simp: n2_def)
      then show ?thesis using 2 by (auto simp: N'_def py_sub_def)
    qed
  qed
  have "\<not> py_lt (py_round N' 2) (Finite 0)"
    by (rule round_not_negative) (use N core(8) in auto)
  then show ?thesis
    unfolding N'_def D'_def G'_def p'_def lit .
qed

lemma weight_sum_nonneg: "0 \<le> (\<Sum>row\<leftarrow>rows. weight (att_status row))"
  by (intro sum_list_nonneg) (auto simp: weight_nonneg)

lemma weight_sum_le_length:
  "(\<Sum>row\<leftarrow>rows. weight (att_status row)) \<le> of_nat (length rows)"
proof (induction rows)
  case Nil
  then show ?case by simp
next
  case (Cons row rows)
  have "weight (att_status row) \<le> 1" by (cases "att_status row") simp_all
  with Cons show ?case by simp
qed

lemma weight_sum_zero_or_half:
  "(\<Sum>row\<leftarrow>rows. weight (att_status row)) = 0 \<or>
   1 / 2 \<le> (\<Sum>row\<leftarrow>rows. weight (att_status row))"
proof (induction rows)
  case Nil
  then show ?case by simp
next
  case (Cons row rows)
  have "weight (att_status row) = 0 \<or> 1 / 2 \<le> weight (att_status row)"
    by (cases "att_status row") simp_all
  with Cons weight_sum_nonneg [of rows] show ?case by auto
qed

lemma tax_Finite:
  "calculate_professional_tax (Finite b) =
     Finite (if b \<le> 10000 then 0 else if b \<le> 30000 then 150 else 200)"
  by (simp add: calculate_professional_tax_def)

lemma net_salary_not_negative_valid:
  assumes valid: "1 \<le> year" "year \<le> 9999" "1 \<le> month" "month \<le> 12"
    and u: "unique_employee_date_attendance db"
    and b: "emp_basic_salary e = Finite b" "0 < b" "round_to_double b = b"
    and a: "emp_allowances e = Finite a" "0 \<le> a"
  shows "\<exists>r. fst (calculate_payroll e year month db) = Inr r \<and> \<not> py_lt (p_net_salary r) (Finite 0)"
proof -
  obtain w attended ratio where
    w: "20 \<le> w" "w \<le> 23" and
    att: "attended = sum_attended (month_events (emp_id e) year month db) (Finite 0)" and
    r: "py_truediv attended (Finite (of_int w)) = Inr ratio" and
    cp: "calculate_payroll e year month db =
      (Inr \<lparr>p_basic_salary = py_round (emp_basic_salary e) 2,
            p_allowances = py_round (emp_allowances e) 2,
            p_gross_salary = py_round (py_round (py_mul (py_add (emp_basic_salary e) (emp_allowances e)) ratio) 2) 2,
            p_pf_contribution = py_round (py_mul (py_mul (emp_basic_salary e) ratio) (float_literal (12 / 100))) 2,
            p_professional_tax = py_round (if py_gt attended (Finite 0)
                 then calculate_professional_tax (emp_basic_salary e) else Finite 0) 2,
            p_net_salary = py_round (py_sub (py_sub
                 (py_round (py_mul (py_add (emp_basic_salary e) (emp_allowances e)) ratio) 2)
                 (py_mul (py_mul (emp_basic_salary e) ratio) (float_literal (12 / 100))))
                 (if py_gt attended (Finite 0)
                  then calculate_professional_tax (emp_basic_salary e) else Finite 0)) 2,
            p_working_days = w,
            p_attended_days = attended,
            p_attendance_ratio = py_round ratio 3\<rparr>, e, db)"
    using calculate_payroll_total [OF valid, of e db] by metis
  define A where "A = (\<Sum>row\<leftarrow>month_events (emp_id e) year month db. weight (att_status row))"
  have len: "length (month_events (emp_id e) year month db) \<le> 31"
    by (rule month_events_length [OF u])
  have attA: "attended = Finite A"
    by (simp add: att A_def sum_attended_exact_0 [OF len])
  have A31: "A \<le> 31"
  proof -
    have "A \<le> of_nat (length (month_events (emp_id e) year month db))"
      unfolding A_def by (rule weight_sum_le_length)
    also have "\<dots> \<le> of_nat 31" using len by (simp only: of_nat_le_iff)
    finally show ?thesis by simp
  qed
  have w0: "0 < rat_of_int w" "rat_of_int w \<le> 23" "20 \<le> rat_of_int w"
    using w by simp_all
  have net: "p_net_salary (projr (fst (calculate_payroll e year month db))) =
      py_round (py_sub (py_sub
                 (py_round (py_mul (py_add (Finite b) (Finite a)) ratio) 2)
                 (py_mul (py_mul (Finite b) ratio) (float_literal (12 / 100))))
                 (if py_gt attended (Finite 0)
                  then calculate_professional_tax (Finite b) else Finite 0)) 2"
    by (simp add: cp b a del: py_round.simps py_add.simps py_mul.simps)
  have "\<not> py_lt (p_net_salary (projr (fst (calculate_payroll e year month db)))) (Finite 0)"
  proof (cases "A = 0")
    case True
    then have ratio0: "ratio = Finite 0"
      using r w0 by (simp add: attA fl_zero)
    have gt: "\<not> py_gt attended (Finite 0)" by (simp add: attA True py_gt_def)
    have lit: "float_literal (12 / 100) = Finite (1080863910568919 / 9007199254740992)"
      by (simp add: fl_eval)
    have "0 < round_to_double (b + a)"
    proof -
      have "round_to_double b \<le> round_to_double (b + a)"
        using a by (intro round_to_double_mono) simp
      then show ?thesis using b by simp
    qed
    then have "fl (b + a) = PosInf \<or> fl (b + a) = Finite (round_to_double (b + a))"
      using fl_not_neginf [of "b + a"] by auto
    then show ?thesis
      unfolding net ratio0 lit using gt
      by (auto simp: py_sub_def fl_zero signed_inf_def round_half_even_def)
  next
    case False
    then have Ah: "1 / 2 \<le> A" using weight_sum_zero_or_half [of "month_events (emp_id e) year month db"]
      by (simp add: A_def)
    define rr where "rr = round_to_double (A / of_int w)"
    have lo: "11 / 512 \<le> A / of_int w"
    proof -
      have "11 / 512 * rat_of_int w \<le> 11 / 512 * 23" using w0 by simp
      also have "\<dots> \<le> A" using Ah by simp
      finally show ?thesis using w0 by (simp add: pos_le_divide_eq)
    qed
    have hi: "A / of_int w \<le> 2"
    proof -
      have "A \<le> 2 * 20" using A31 by simp
      also have "\<dots> \<le> 2 * rat_of_int w" using w0 by simp
      finally show ?thesis using w0 by (simp add: pos_divide_le_eq)
    qed
    have rlo: "11 / 512 \<le> rr"
      using round_to_double_mono [OF lo] by (simp add: rr_def round_to_double_fixed_points)
    have rhi: "rr \<le> 2"
      using round_to_double_mono [OF hi] by (simp add: rr_def round_to_double_fixed_points)
    have "fl (A / of_int w) = Finite rr"
      using rlo rhi by (auto simp: fl_def Let_def rr_def)
    then have ratio: "ratio = Finite rr"
      using r w0 by (simp add: attA)
    have gt: "py_gt attended (Finite 0)"
      using Ah by (simp add: attA py_gt_def)
    show ?thesis
      unfolding net ratio using gt
      by (simp only: if_True tax_Finite net_not_negative_float [OF b(2,3) a(2) rlo rhi refl]
          not_False_eq_True)
  qed
  then show ?thesis by (simp add: cp)
qed

text \<open>
  The terms that the validator accepts are a positive basic salary and non-negative
  allowances, and also an infinite or NaN term, for which every comparison of the
  validator is false. With an infinite or NaN term the adjusted gross is infinite or
  NaN, and so is the net salary.
\<close>

lemma is_float_Finite: "is_float (Finite q) \<Longrightarrow> round_to_double q = q"
  by (auto simp: is_float_def fl_def Let_def split: if_splits)

lemma accepted_terms_cases:
  assumes "fst (validate_payroll_data b a)"
  shows "(b = PosInf \<or> b = NaN \<or> (\<exists>q. b = Finite q \<and> 0 < q)) \<and>
         (a = PosInf \<or> a = NaN \<or> (\<exists>q. a = Finite q \<and> 0 \<le> q))"
  using assms by (cases b; cases a) (auto simp: validate_payroll_data_def split: if_splits)

lemma top_gross:
  assumes "b = PosInf \<or> b = NaN \<or> (\<exists>q. b = Finite q)"
    and "a = PosInf \<or> a = NaN \<or> (\<exists>q. a = Finite q)"
    and "\<not> ((\<exists>q. b = Finite q) \<and> (\<exists>q. a = Finite q))" and "0 \<le> r"
  shows "py_mul (py_add b a) (Finite r) = PosInf \<or> py_mul (py_add b a) (Finite r) = NaN"
  using assms by (cases b; cases a) (auto simp: signed_inf_def)

lemma sub_top_any:
  assumes "D = PosInf \<or> D = NaN"
  shows "py_sub D P = PosInf \<or> py_sub D P = NaN"
  using assms by (cases P) (auto simp: py_sub_def)

lemma tax_is_Finite: "\<exists>t. (if c then calculate_professional_tax s else Finite 0) = Finite t"
  by (simp add: calculate_professional_tax_def)

lemma net_salary_not_negative_accepted:
  assumes valid: "1 \<le> year" "year \<le> 9999" "1 \<le> month" "month \<le> 12"
    and u: "unique_employee_date_attendance db"
    and f: "is_float (emp_basic_salary e)"
    and acc: "fst (validate_payroll_data (emp_basic_salary e) (emp_allowances e))"
  shows "\<exists>r. fst (calculate_payroll e year month db) = Inr r \<and> \<not> py_lt (p_net_salary r) (Finite 0)"
proof (cases "(\<exists>q. emp_basic_salary e = Finite q) \<and> (\<exists>q. emp_allowances e = Finite q)")
  case True
  then obtain b a where ba: "emp_basic_salary e = Finite b" "emp_allowances e = Finite a"
    by blast
  from accepted_terms_cases [OF acc] ba have pos: "0 < b" "0 \<le> a" by simp_all
  from f ba have "round_to_double b = b" by (simp add: is_float_Finite)
  then show ?thesis
    by (rule net_salary_not_negative_valid [OF valid u ba(1) pos(1) _ ba(2) pos(2)])
next
  case False
  obtain w attended ratio where
    w: "20 \<le> w" "w \<le> 23" and
    att: "attended = sum_attended (month_events (emp_id e) year month db) (Finite 0)" and
    r: "py_truediv attended (Finite (of_int w)) = Inr ratio" and
    cp: "calculate_payroll e year month db =
      (Inr \<lparr>p_basic_salary = py_round (emp_basic_salary e) 2,
            p_allowances = py_round (emp_allowances e) 2,
            p_gross_salary = py_round (py_round (py_mul (py_add (emp_basic_salary e) (emp_allowances e)) ratio) 2) 2,
            p_pf_contribution = py_round (py_mul (py_mul (emp_basic_salary e) ratio) (float_literal (12 / 100))) 2,
            p_professional_tax = py_round (if py_gt attended (Finite 0)
                 then calculate_professional_tax (emp_basic_salary e) else Finite 0) 2,
            p_net_salary = py_round (py_sub (py_sub
                 (py_round (py_mul (py_add (emp_basic_salary e) (emp_allowances e)) ratio) 2)
                 (py_mul (py_mul (emp_basic_salary e) ratio) (float_literal (12 / 100))))
                 (if py_gt attended (Finite 0)
                  then calculate_professional_tax (emp_basic_salary e) else Finite 0)) 2,
            p_working_days = w,
            p_attended_days = attended,
            p_attendance_ratio = py_round ratio 3\<rparr>, e, db)"
    using calculate_payroll_total [OF valid, of e db] by metis
  define A where "A = (\<Sum>row\<leftarrow>month_events (emp_id e) year month db. weight (att_status row))"
  have len: "length (month_events (emp_id e) year month db) \<le> 31"
    by (rule month_events_length [OF u])
  have attA: "attended = Finite A"
    by (simp add: att A_def sum_attended_exact_0 [OF len])
  have A0: "0 \<le> A" unfolding A_def by (rule weight_sum_nonneg)
  have A31: "A \<le> 31"
  proof -
    have "A \<le> of_nat (length (month_events (emp_id e) year month db))"
      unfolding A_def by (rule weight_sum_le_length)
    also have "\<dots> \<le> of_nat 31" using len by (simp only: of_nat_le_iff)
    finally show ?thesis by simp
  qed
  have w0: "0 < rat_of_int w" "rat_of_int w \<le> 23" "20 \<le> rat_of_int w"
    using w by simp_all
  define rr where "rr = round_to_double (A / of_int w)"
  have lo: "0 \<le> A / of_int w" using A0 w0 by simp
  have hi: "A / of_int w \<le> 2"
  proof -
    have "A \<le> 2 * 20" using A31 by simp
    also have "\<dots> \<le> 2 * rat_of_int w" using w0 by simp
    finally show ?thesis using w0 by (simp add: pos_divide_le_eq)
  qed
  have rlo: "0 \<le> rr" unfolding rr_def by (rule round_to_double_nonneg [OF lo])
  have rhi: "rr \<le> 2"
    using round_to_double_mono [OF hi] by (simp add: rr_def round_to_double_fixed_points)
  have "fl (A / of_int w) = Finite rr"
    using rlo rhi by (auto simp: fl_def Let_def rr_def)
  then have ratio: "ratio = Finite rr"
    using r w0 by (simp add: attA)
  from accepted_terms_cases [OF acc]
  have G: "py_mul (py_add (emp_basic_salary e) (emp_allowances e)) (Finite rr) = PosInf \<or>
           py_mul (py_add (emp_basic_salary e) (emp_allowances e)) (Finite rr) = NaN"
    by (intro top_gross [OF _ _ False rlo]) blast+
  then have G2: "py_round (py_mul (py_add (emp_basic_salary e) (emp_allowances e)) (Finite rr)) 2 = PosInf \<or>
           py_round (py_mul (py_add (emp_basic_salary e) (emp_allowances e)) (Finite rr)) 2 = NaN"
    by auto
  obtain t where t: "(if py_gt attended (Finite 0)
      then calculate_professional_tax (emp_basic_salary e) else Finite 0) = Finite t"
    using tax_is_Finite by blast
  have "\<not> py_lt (py_round (py_sub (py_sub
                 (py_round (py_mul (py_add (emp_basic_salary e) (emp_allowances e)) (Finite rr)) 2)
                 (py_mul (py_mul (emp_basic_salary e) (Finite rr)) (float_literal (12 / 100))))
                 (Finite t)) 2) (Finite 0)"
    using sub_top [OF sub_top_any [OF G2], of "py_mul (py_mul (emp_basic_salary e) (Finite rr)) (float_literal (12 / 100))" t]
    by auto
  then show ?thesis
    by (simp add: cp ratio t del: py_round.simps py_add.simps py_mul.simps)
qed

lemma valid_terms_accepted:
  assumes "py_gt b (Finite 0)" "py_le (Finite 0) a"
  shows "fst (validate_payroll_data b a)"
  using assms by (cases b; cases a) (auto simp: validate_payroll_data_def py_gt_def)

lemma round_two_decimals:
  "(\<exists>k. py_round x 2 = fl (of_int k / 100)) \<or> py_round x 2 = PosInf \<or> py_round x 2 = NaN \<or>
   py_round x 2 = NegInf"
  by (cases x) auto

section \<open>The net salary\<close>

text \<open>
  No valid input has a negative net salary: for a basic salary above zero, allowances of
  at least zero, a valid month and a table with at most one event for each date the
  calculator returns no net salary below zero.
\<close>

theorem no_negative_net_salary_for_valid_input:
  "\<not> (\<exists>e year month db r.
        1 \<le> year \<and> year \<le> 9999 \<and> 1 \<le> month \<and> month \<le> 12 \<and>
        unique_employee_date_attendance db \<and>
        is_float (emp_basic_salary e) \<and>
        py_gt (emp_basic_salary e) (Finite 0) \<and> py_le (Finite 0) (emp_allowances e) \<and>
        fst (calculate_payroll e year month db) = Inr r \<and>
        py_lt (p_net_salary r) (Finite 0))"
proof
  assume "\<exists>e year month db r.
        1 \<le> year \<and> year \<le> 9999 \<and> 1 \<le> month \<and> month \<le> 12 \<and>
        unique_employee_date_attendance db \<and>
        is_float (emp_basic_salary e) \<and>
        py_gt (emp_basic_salary e) (Finite 0) \<and> py_le (Finite 0) (emp_allowances e) \<and>
        fst (calculate_payroll e year month db) = Inr r \<and>
        py_lt (p_net_salary r) (Finite 0)"
  then obtain e year month db r where
    valid: "1 \<le> year" "year \<le> 9999" "1 \<le> month" "month \<le> 12" and
    u: "unique_employee_date_attendance db" and
    f: "is_float (emp_basic_salary e)" and
    t: "py_gt (emp_basic_salary e) (Finite 0)" "py_le (Finite 0) (emp_allowances e)" and
    r: "fst (calculate_payroll e year month db) = Inr r" "py_lt (p_net_salary r) (Finite 0)"
    by blast
  have "fst (validate_payroll_data (emp_basic_salary e) (emp_allowances e))"
    by (rule valid_terms_accepted [OF t])
  from net_salary_not_negative_accepted [OF valid u f this] r show False
    by auto
qed

text \<open>
  C3 (amended). For a valid month, a table with at most one event for each date and
  salary terms that the validator accepts, the basic salary being a float, the
  calculator returns a breakdown whose net salary is not negative and is a value rounded
  to two decimals (or an infinity or a NaN). It is the rounded difference of the
  reported gross salary, PF contribution and professional tax whenever the rounding for
  the report has changed neither the adjusted gross nor the PF amount. Nothing clamps
  the net salary at zero: with allowances of -18000, which the validator rejects, basic
  salary 20000 and one half day in February 2025 the net salary is -160.0.
\<close>

theorem net_salary_not_clamped_not_negative:
  assumes valid: "1 \<le> year" "year \<le> 9999" "1 \<le> month" "month \<le> 12"
    and u: "unique_employee_date_attendance db"
    and f: "is_float (emp_basic_salary e)"
    and acc: "fst (validate_payroll_data (emp_basic_salary e) (emp_allowances e))"
  shows "(\<exists>r ratio.
            fst (calculate_payroll e year month db) = Inr r \<and>
            \<not> py_lt (p_net_salary r) (Finite 0) \<and>
            ((\<exists>k. p_net_salary r = fl (of_int k / 100)) \<or>
             p_net_salary r = PosInf \<or> p_net_salary r = NaN) \<and>
            py_truediv (p_attended_days r) (Finite (of_int (p_working_days r))) = Inr ratio \<and>
            (p_gross_salary r =
               py_round (py_mul (py_add (emp_basic_salary e) (emp_allowances e)) ratio) 2 \<and>
             p_pf_contribution r =
               py_mul (py_mul (emp_basic_salary e) ratio) (float_literal (12 / 100)) \<longrightarrow>
             p_net_salary r =
               py_round (py_sub (py_sub (p_gross_salary r) (p_pf_contribution r))
                           (p_professional_tax r)) 2)) \<and>
         fst (calculate_payroll \<lparr>emp_id = 1, emp_basic_salary = Finite 20000, emp_allowances = Finite (- 18000)\<rparr>
                2025 2 \<lparr>attendance_table = example_rows 1 2025 2 HALF_DAY [3]\<rparr>) =
           Inr \<lparr>p_basic_salary = Finite 20000, p_allowances = Finite (- 18000),
                p_gross_salary = Finite 50, p_pf_contribution = Finite 60,
                p_professional_tax = Finite 150, p_net_salary = Finite (- 160),
                p_working_days = 20, p_attended_days = Finite (1 / 2),
                p_attendance_ratio = float_literal (25 / 1000)\<rparr> \<and>
         py_lt (Finite (- 160)) (Finite 0) \<and>
         validate_payroll_data (Finite 20000) (Finite (- 18000)) =
           (False, ''Allowances cannot be negative'')"
proof -
  obtain w attended ratio where
    r: "py_truediv attended (Finite (of_int w)) = Inr ratio" and
    cp: "calculate_payroll e year month db =
      (Inr \<lparr>p_basic_salary = py_round (emp_basic_salary e) 2,
            p_allowances = py_round (emp_allowances e) 2,
            p_gross_salary = py_round (py_round (py_mul (py_add (emp_basic_salary e) (emp_allowances e)) ratio) 2) 2,
            p_pf_contribution = py_round (py_mul (py_mul (emp_basic_salary e) ratio) (float_literal (12 / 100))) 2,
            p_professional_tax = py_round (if py_gt attended (Finite 0)
                 then calculate_professional_tax (emp_basic_salary e) else Finite 0) 2,
            p_net_salary = py_round (py_sub (py_sub
                 (py_round (py_mul (py_add (emp_basic_salary e) (emp_allowances e)) ratio) 2)
                 (py_mul (py_mul (emp_basic_salary e) ratio) (float_literal (12 / 100))))
                 (if py_gt attended (Finite 0)
                  then calculate_professional_tax (emp_basic_salary e) else Finite 0)) 2,
            p_working_days = w,
            p_attended_days = attended,
            p_attendance_ratio = py_round ratio 3\<rparr>, e, db)"
    using calculate_payroll_total [OF valid, of e db] by metis
  define R where "R = projr (fst (calculate_payroll e year month db))"
  have run0: "fst (calculate_payroll e year month db) = Inr R"
    by (simp add: R_def cp)
  have nn: "\<not> py_lt (p_net_salary R) (Finite 0)"
    using net_salary_not_negative_accepted [OF valid u f acc] run0 by auto
  have "(\<exists>k. p_net_salary R = fl (of_int k / 100)) \<or>
        p_net_salary R = PosInf \<or> p_net_salary R = NaN \<or> p_net_salary R = NegInf"
    unfolding R_def cp by (simp only: fst_conv sum.sel payroll.simps round_two_decimals)
  with nn have two: "(\<exists>k. p_net_salary R = fl (of_int k / 100)) \<or>
        p_net_salary R = PosInf \<or> p_net_salary R = NaN"
    by auto
  have div: "py_truediv (p_attended_days R) (Finite (of_int (p_working_days R))) = Inr ratio"
    by (simp add: R_def cp r del: py_truediv.simps)
  have fields: "p_net_salary R =
      py_round (py_sub (py_sub (p_gross_salary R) (p_pf_contribution R)) (p_professional_tax R)) 2"
    if "p_gross_salary R =
          py_round (py_mul (py_add (emp_basic_salary e) (emp_allowances e)) ratio) 2 \<and>
        p_pf_contribution R =
          py_mul (py_mul (emp_basic_salary e) ratio) (float_literal (12 / 100))"
  proof -
    have t: "p_professional_tax R = (if py_gt attended (Finite 0)
                 then calculate_professional_tax (emp_basic_salary e) else Finite 0)"
      by (simp add: R_def cp tax_round round_zero del: py_round.simps)
    have n: "p_net_salary R = py_round (py_sub (py_sub
                 (py_round (py_mul (py_add (emp_basic_salary e) (emp_allowances e)) ratio) 2)
                 (py_mul (py_mul (emp_basic_salary e) ratio) (float_literal (12 / 100))))
                 (if py_gt attended (Finite 0)
                  then calculate_professional_tax (emp_basic_salary e) else Finite 0)) 2"
      by (simp add: R_def cp del: py_round.simps py_add.simps py_mul.simps)
    show ?thesis
      by (simp only: n t conjunct1 [OF that] conjunct2 [OF that])
  qed
  have general: "\<exists>r ratio.
            fst (calculate_payroll e year month db) = Inr r \<and>
            \<not> py_lt (p_net_salary r) (Finite 0) \<and>
            ((\<exists>k. p_net_salary r = fl (of_int k / 100)) \<or>
             p_net_salary r = PosInf \<or> p_net_salary r = NaN) \<and>
            py_truediv (p_attended_days r) (Finite (of_int (p_working_days r))) = Inr ratio \<and>
            (p_gross_salary r =
               py_round (py_mul (py_add (emp_basic_salary e) (emp_allowances e)) ratio) 2 \<and>
             p_pf_contribution r =
               py_mul (py_mul (emp_basic_salary e) ratio) (float_literal (12 / 100)) \<longrightarrow>
             p_net_salary r =
               py_round (py_sub (py_sub (p_gross_salary r) (p_pf_contribution r))
                           (p_professional_tax r)) 2)"
    using run0 nn two div fields by blast
  have gw: "get_working_days 2025 2 = Inr 20"
    by (simp add: cal_defs upto_rec1)
  have s: "Finite (1 / 2) = sum_attended (month_events
      (emp_id \<lparr>emp_id = 1, emp_basic_salary = Finite 20000, emp_allowances = Finite (- 18000)\<rparr>) 2025 2
      \<lparr>attendance_table = example_rows 1 2025 2 HALF_DAY [3]\<rparr>) (Finite 0)"
    by (simp add: rows_eval fl_eval)
  have ratio: "py_truediv (Finite (1 / 2)) (Finite (of_int 20)) =
      Inr (Finite (3602879701896397 / 144115188075855872))"
    by (simp add: fl_eval)
  note cp' = calculate_payroll_valid [of 2025 2 20 "Finite (1 / 2)" _ _, OF _ _ _ _ gw _ _ s ratio refl refl refl]
  have run: "fst (calculate_payroll \<lparr>emp_id = 1, emp_basic_salary = Finite 20000, emp_allowances = Finite (- 18000)\<rparr>
                2025 2 \<lparr>attendance_table = example_rows 1 2025 2 HALF_DAY [3]\<rparr>) =
           Inr \<lparr>p_basic_salary = Finite 20000, p_allowances = Finite (- 18000),
                p_gross_salary = Finite 50, p_pf_contribution = Finite 60,
                p_professional_tax = Finite 150, p_net_salary = Finite (- 160),
                p_working_days = 20, p_attended_days = Finite (1 / 2),
                p_attendance_ratio = float_literal (25 / 1000)\<rparr>"
    by (subst cp') (simp_all add: payroll_eval)
  have v: "validate_payroll_data (Finite 20000) (Finite (- 18000)) =
           (False, ''Allowances cannot be negative'')"
    by (simp add: validate_payroll_data_def)
  have neg: "py_lt (Finite (- 160)) (Finite 0)" by simp
  from general run neg v show ?thesis by blast
qed

theorem net_salary_not_clamped_not_negative_witness:
  "unique_employee_date_attendance \<lparr>attendance_table = example_rows 1 2025 1 PRESENT [1..23]\<rparr> \<and>
   is_float (Finite 50000) \<and>
   fst (validate_payroll_data (Finite 50000) (Finite 10000)) \<and>
   fst (calculate_payroll \<lparr>emp_id = 1, emp_basic_salary = Finite 50000, emp_allowances = Finite 10000\<rparr>
          2025 1 \<lparr>attendance_table = example_rows 1 2025 1 PRESENT [1..23]\<rparr>) =
     Inr \<lparr>p_basic_salary = Finite 50000, p_allowances = Finite 10000,
          p_gross_salary = Finite 60000, p_pf_contribution = Finite 6000,
          p_professional_tax = Finite 200, p_net_salary = Finite 53800,
          p_working_days = 23, p_attended_days = Finite 23,
          p_attendance_ratio = Finite 1\<rparr> \<and>
   \<not> py_lt (Finite 53800) (Finite 0) \<and>
   py_round (py_mul (py_add (Finite 50000) (Finite 10000)) (Finite 1)) 2 = Finite 60000 \<and>
   py_mul (py_mul (Finite 50000) (Finite 1)) (float_literal (12 / 100)) = Finite 6000 \<and>
   py_round (py_sub (py_sub (Finite 60000) (Finite 6000)) (Finite 200)) 2 = Finite 53800"
proof -
  define e where "e = \<lparr>emp_id = 1, emp_basic_salary = Finite 50000, emp_allowances = Finite 10000\<rparr>"
  define db where "db = \<lparr>attendance_table = example_rows 1 2025 1 PRESENT [1..23]\<rparr>"
  have u: "unique_employee_date_attendance db"
    by (simp add: db_def unique_employee_date_attendance_def example_rows_def upto_rec1)
  have fb: "is_float (Finite 50000)"
    by (simp add: is_float_def fl_eval)
  have f: "is_float (emp_basic_salary e)"
    using fb by (simp add: e_def)
  have acc0: "fst (validate_payroll_data (Finite 50000) (Finite 10000))"
    by (simp add: validate_payroll_data_def)
  have acc: "fst (validate_payroll_data (emp_basic_salary e) (emp_allowances e))"
    using acc0 by (simp add: e_def)
  have gw: "get_working_days 2025 1 = Inr 23"
    by (simp add: cal_defs upto_rec1)
  have s: "Finite 23 = sum_attended (month_events (emp_id e) 2025 1 db) (Finite 0)"
    by (simp add: e_def db_def rows_eval fl_eval)
  have ratio: "py_truediv (Finite 23) (Finite (of_int 23)) = Inr (Finite 1)"
    by (simp add: fl_eval)
  note cp = calculate_payroll_valid [of 2025 1 23 "Finite 23" _ _, OF _ _ _ _ gw _ _ s ratio refl refl refl]
  have run: "fst (calculate_payroll e 2025 1 db) =
     Inr \<lparr>p_basic_salary = Finite 50000, p_allowances = Finite 10000,
          p_gross_salary = Finite 60000, p_pf_contribution = Finite 6000,
          p_professional_tax = Finite 200, p_net_salary = Finite 53800,
          p_working_days = 23, p_attended_days = Finite 23,
          p_attendance_ratio = Finite 1\<rparr>"
    by (subst cp) (simp_all add: e_def payroll_eval)
  have g: "py_round (py_mul (py_add (Finite 50000) (Finite 10000)) (Finite 1)) 2 = Finite 60000"
    by (simp add: fl_eval)
  have p: "py_mul (py_mul (Finite 50000) (Finite 1)) (float_literal (12 / 100)) = Finite 6000"
    by (simp add: fl_eval)
  have v: "(1::int) \<le> 2025" "(2025::int) \<le> 9999" "(1::int) \<le> 1" "(1::int) \<le> 12"
    by simp_all
  from net_salary_not_clamped_not_negative [OF v u f acc]
  obtain r q where
    r: "fst (calculate_payroll e 2025 1 db) = Inr r" and
    nn: "\<not> py_lt (p_net_salary r) (Finite 0)" and
    d: "py_truediv (p_attended_days r) (Finite (of_int (p_working_days r))) = Inr q" and
    c: "p_gross_salary r =
               py_round (py_mul (py_add (emp_basic_salary e) (emp_allowances e)) q) 2 \<and>
             p_pf_contribution r =
               py_mul (py_mul (emp_basic_salary e) q) (float_literal (12 / 100)) \<longrightarrow>
             p_net_salary r =
               py_round (py_sub (py_sub (p_gross_salary r) (p_pf_contribution r))
                           (p_professional_tax r)) 2"
    by blast
  from r run have rr: "r = \<lparr>p_basic_salary = Finite 50000, p_allowances = Finite 10000,
          p_gross_salary = Finite 60000, p_pf_contribution = Finite 6000,
          p_professional_tax = Finite 200, p_net_salary = Finite 53800,
          p_working_days = 23, p_attended_days = Finite 23,
          p_attendance_ratio = Finite 1\<rparr>"
    by simp
  from d ratio have q: "q = Finite 1"
    by (simp add: rr del: py_truediv.simps)
  from nn have n1: "\<not> py_lt (Finite 53800) (Finite 0)"
    by (simp add: rr)
  have prem: "p_gross_salary r =
               py_round (py_mul (py_add (emp_basic_salary e) (emp_allowances e)) q) 2 \<and>
             p_pf_contribution r =
               py_mul (py_mul (emp_basic_salary e) q) (float_literal (12 / 100))"
    unfolding rr q e_def
    by (simp only: payroll.select_convs employee.select_convs g p simp_thms)
  from c prem have "p_net_salary r =
               py_round (py_sub (py_sub (p_gross_salary r) (p_pf_contribution r))
                           (p_professional_tax r)) 2"
    by (rule mp)
  then have "Finite 53800 = py_round (py_sub (py_sub (Finite 60000) (Finite 6000)) (Finite 200)) 2"
    unfolding rr by (simp only: payroll.select_convs)
  then have n2: "py_round (py_sub (py_sub (Finite 60000) (Finite 6000)) (Finite 200)) 2 = Finite 53800"
    by (rule sym)
  from u fb acc0 run n1 g p n2 show ?thesis
    unfolding e_def db_def by blast
qed

end
